theory Spec2Isabelle
  imports Complex_Main "HOL-Library.Multiset"
begin

section \<open>Numbers\<close>

text \<open>
  A JavaScript number is an IEEE-754 double: a finite value, one of the two infinities,
  or NaN. The finite values are embedded in the reals. The result of an arithmetic
  operation on finite operands is the exact real result passed through a rounding
  function \<open>rnd\<close>, which is a parameter of every operation that rounds (it may also
  answer an infinity, on overflow). Nothing is assumed about \<open>rnd\<close> unless a theorem
  says so; \<open>Fin\<close> itself is the rounding of exact arithmetic. The two zeros of
  IEEE-754 are not told apart: a zero divisor counts as \<open>+0\<close>.
\<close>

datatype number = Fin real | PInf | NInf | NaN

type_synonym rounding = "real \<Rightarrow> number"

text \<open>The relational operators \<^verbatim>\<open><\<close>, \<^verbatim>\<open>></\<close>, \<^verbatim>\<open><=\<close>: false as soon as an operand is NaN.\<close>

fun num_lt :: "number \<Rightarrow> number \<Rightarrow> bool" where
  "num_lt NaN b = False"
| "num_lt a NaN = False"
| "num_lt (Fin x) (Fin y) = (x < y)"
| "num_lt PInf b = False"
| "num_lt a NInf = False"
| "num_lt NInf b = True"
| "num_lt (Fin x) PInf = True"

definition num_gt :: "number \<Rightarrow> number \<Rightarrow> bool" where
  "num_gt a b = num_lt b a"

definition num_le :: "number \<Rightarrow> number \<Rightarrow> bool" where
  "num_le a b = (a \<noteq> NaN \<and> b \<noteq> NaN \<and> \<not> num_lt b a)"

text \<open>\<^verbatim>\<open>===\<close> on numbers: NaN differs from everything, itself included.\<close>

definition strict_eq :: "number \<Rightarrow> number \<Rightarrow> bool" where
  "strict_eq a b = (a \<noteq> NaN \<and> b \<noteq> NaN \<and> a = b)"

fun isFinite :: "number \<Rightarrow> bool" where
  "isFinite (Fin x) = True"
| "isFinite a = False"

definition positive :: "number \<Rightarrow> bool" where
  "positive a = num_lt (Fin 0) a"

fun num_mul :: "rounding \<Rightarrow> number \<Rightarrow> number \<Rightarrow> number" where
  "num_mul rnd (Fin x) (Fin y) = rnd (x * y)"
| "num_mul rnd a b =
     (if a = NaN \<or> b = NaN \<or> a = Fin 0 \<or> b = Fin 0 then NaN
      else if positive a = positive b then PInf else NInf)"

fun num_div :: "rounding \<Rightarrow> number \<Rightarrow> number \<Rightarrow> number" where
  "num_div rnd (Fin x) (Fin y) =
     (if y \<noteq> 0 then rnd (x / y)
      else if x = 0 then NaN else if 0 < x then PInf else NInf)"
| "num_div rnd NaN b = NaN"
| "num_div rnd a NaN = NaN"
| "num_div rnd (Fin x) b = Fin 0"
| "num_div rnd a (Fin y) = (if (a = PInf) = (0 \<le> y) then PInf else NInf)"
| "num_div rnd a b = NaN"

fun num_sub :: "rounding \<Rightarrow> number \<Rightarrow> number \<Rightarrow> number" where
  "num_sub rnd (Fin x) (Fin y) = rnd (x - y)"
| "num_sub rnd NaN b = NaN"
| "num_sub rnd a NaN = NaN"
| "num_sub rnd PInf b = (if b = PInf then NaN else PInf)"
| "num_sub rnd NInf b = (if b = NInf then NaN else NInf)"
| "num_sub rnd (Fin x) PInf = NInf"
| "num_sub rnd (Fin x) NInf = PInf"

text \<open>\<^verbatim>\<open>Math.min\<close>: NaN as soon as an argument is NaN, else the least argument.\<close>

definition min2 :: "number \<Rightarrow> number \<Rightarrow> number" where
  "min2 a b = (if a = NaN \<or> b = NaN then NaN else if num_lt b a then b else a)"

fun Math_min :: "number list \<Rightarrow> number" where
  "Math_min [] = PInf"
| "Math_min (a # as) = min2 a (Math_min as)"

subsection \<open>Arrays\<close>

text \<open>
  \<^verbatim>\<open>Array.prototype.sort(comparefn)\<close> is stable: an element moves behind another one
  only when the comparison function answers a number greater than zero (NaN counts as
  zero). The model inserts the elements from the right. For a consistent comparison
  function every stable sort gives this result; for an inconsistent one (NaN among
  the keys) the order is left to the implementation, and the model is one of them.
\<close>

fun insertBy :: "('a \<Rightarrow> 'a \<Rightarrow> number) \<Rightarrow> 'a \<Rightarrow> 'a list \<Rightarrow> 'a list" where
  "insertBy cmp x [] = [x]"
| "insertBy cmp x (y # ys) =
     (if num_gt (cmp x y) (Fin 0) then y # insertBy cmp x ys else x # y # ys)"

definition sortBy :: "('a \<Rightarrow> 'a \<Rightarrow> number) \<Rightarrow> 'a list \<Rightarrow> 'a list" where
  "sortBy cmp xs = foldr (insertBy cmp) xs []"

text \<open>
  \<^verbatim>\<open>xs.slice(0, stop)\<close>: the end index is truncated to an integer (NaN gives 0), a
  negative one counts from the end of the array, and the result is clamped to the
  array.
\<close>

definition sliceTo :: "number \<Rightarrow> 'a list \<Rightarrow> 'a list" where
  "sliceTo stop xs =
     (case stop of
        Fin x \<Rightarrow>
          (let k = (if 0 \<le> x then \<lfloor>x\<rfloor> else \<lceil>x\<rceil>)
           in if k < 0 then take (nat (int (length xs) + k)) xs else take (nat k) xs)
      | PInf \<Rightarrow> xs
      | NInf \<Rightarrow> []
      | NaN \<Rightarrow> [])"

section \<open>Types\<close>

record MarketPair =
  symbol :: string
  asset :: string
  quote :: string
  bestBid :: number
  bestBidQty :: number
  bestAsk :: number
  bestAskQty :: number

datatype Side = buy | sell

record Leg =
  pair :: string
  side :: Side
  price :: number
  availableQty :: number
  qtyUnit :: string

datatype StrategyType = triangle | cross

datatype Direction = cw | ccw | cross_dir

record Opportunity =
  type :: StrategyType
  assets :: "string list"
  base :: string
  direction :: Direction
  legs :: "Leg list"
  rate :: number
  grossPct :: number
  feePct :: number
  netPct :: number
  maxVolumeIRT :: number
  expectedProfitIRT :: number
  bottleneckLeg :: nat

section \<open>Parsing\<close>

text \<open>\<^verbatim>\<open>s.endsWith(t)\<close> and \<^verbatim>\<open>s.slice(0, -n)\<close> on strings (lists of code units).\<close>

definition endsWith :: "string \<Rightarrow> string \<Rightarrow> bool" where
  "endsWith s t = (length t \<le> length s \<and> drop (length s - length t) s = t)"

definition dropLast :: "nat \<Rightarrow> string \<Rightarrow> string" where
  "dropLast n s = take (length s - n) s"

definition parseSymbol :: "string \<Rightarrow> (string \<times> string) option" where
  "parseSymbol s =
     (if length s > 4 \<and> endsWith s ''USDT'' then Some (dropLast 4 s, ''USDT'')
      else if length s > 3 \<and> endsWith s ''IRT'' then Some (dropLast 3 s, ''IRT'')
      else None)"

text \<open>
  An entry of the raw snapshot, at the types the source casts it to: \<^verbatim>\<open>null\<close> or
  \<^verbatim>\<open>undefined\<close>, a value that is not an object, or an object whose \<^verbatim>\<open>bids\<close> and
  \<^verbatim>\<open>asks\<close> are absent or arrays of rows of strings. The snapshot is the list of its
  entries in the order of \<^verbatim>\<open>Object.entries\<close>.
\<close>

record OrderBook =
  bids :: "string list list option"
  asks :: "string list list option"

datatype RawValue = Nullish | NonObject | Object OrderBook

text \<open>
  \<^verbatim>\<open>Number(row[i])\<close>: the conversion \<open>toNumber\<close> of a string to a number is a
  parameter; an index past the end of the row reads \<^verbatim>\<open>undefined\<close>, whose number is NaN.
\<close>

definition cell :: "(string \<Rightarrow> number) \<Rightarrow> string list \<Rightarrow> nat \<Rightarrow> number" where
  "cell toNumber row i = (if i < length row then toNumber (row ! i) else NaN)"

definition clampQty :: "number \<Rightarrow> number" where
  "clampQty q = (if isFinite q \<and> num_gt q (Fin 0) then q else Fin 0)"

fun parseEntry :: "(string \<Rightarrow> number) \<Rightarrow> string \<times> RawValue \<Rightarrow> MarketPair option" where
  "parseEntry toNumber (key, Object m) =
     (if key = ''status'' then None
      else case parseSymbol key of
        None \<Rightarrow> None
      | Some (a, q) \<Rightarrow>
          (case (bids m, asks m) of
            (Some (b # bs), Some (k # ks)) \<Rightarrow>
              (let bestBid = cell toNumber b 0;
                   bestBidQty = cell toNumber b 1;
                   bestAsk = cell toNumber k 0;
                   bestAskQty = cell toNumber k 1
               in if \<not> num_gt bestBid (Fin 0) \<or> \<not> num_gt bestAsk (Fin 0) then None
                  else if \<not> isFinite bestBid \<or> \<not> isFinite bestAsk then None
                  else Some \<lparr>symbol = key, asset = a, quote = q,
                             bestBid = bestBid, bestBidQty = clampQty bestBidQty,
                             bestAsk = bestAsk, bestAskQty = clampQty bestAskQty\<rparr>)
          | _ \<Rightarrow> None))"
| "parseEntry toNumber (key, v) = None"

fun parseAllPairs :: "(string \<Rightarrow> number) \<Rightarrow> (string \<times> RawValue) list \<Rightarrow> MarketPair list" where
  "parseAllPairs toNumber [] = []"
| "parseAllPairs toNumber (e # es) =
     (case parseEntry toNumber e of
        None \<Rightarrow> parseAllPairs toNumber es
      | Some p \<Rightarrow> p # parseAllPairs toNumber es)"

section \<open>Per-asset precomputed info\<close>

text \<open>The key \<^verbatim>\<open>`${p.asset}:${p.quote}`\<close> of the index, and the index itself: a pair
  set later replaces an earlier one under the same key.\<close>

definition pairKey :: "string \<Rightarrow> string \<Rightarrow> string" where
  "pairKey a q = a @ '':'' @ q"

definition indexPairs :: "MarketPair list \<Rightarrow> (string \<rightharpoonup> MarketPair)" where
  "indexPairs pairs = fold (\<lambda>p idx. idx(pairKey (asset p) (quote p) \<mapsto> p)) pairs Map.empty"

record AssetEntry =
  assetE :: string
  irt :: MarketPair
  baseE :: MarketPair

fun entriesOf :: "(string \<rightharpoonup> MarketPair) \<Rightarrow> string \<Rightarrow> MarketPair list \<Rightarrow> AssetEntry list" where
  "entriesOf idx baseCurrency [] = []"
| "entriesOf idx baseCurrency (p # ps) =
     (if quote p \<noteq> ''IRT'' \<or> asset p = baseCurrency then entriesOf idx baseCurrency ps
      else case idx (pairKey (asset p) baseCurrency) of
        None \<Rightarrow> entriesOf idx baseCurrency ps
      | Some bp \<Rightarrow> \<lparr>assetE = asset p, irt = p, baseE = bp\<rparr> # entriesOf idx baseCurrency ps)"

definition buildAssetEntries :: "MarketPair list \<Rightarrow> string \<Rightarrow> AssetEntry list" where
  "buildAssetEntries pairs baseCurrency = entriesOf (indexPairs pairs) baseCurrency pairs"

section \<open>Strategy 1: triangle (3 legs)\<close>

text \<open>The record built in the CW block of the loop body, before the test that pushes it.\<close>

definition cwCandidate ::
  "rounding \<Rightarrow> string \<Rightarrow> number \<Rightarrow> MarketPair \<Rightarrow> AssetEntry \<Rightarrow> Opportunity" where
  "cwCandidate rnd baseCurrency totalFee bridge e =
     (let xIrt = irt e; xBase = baseE e;
          rate = num_div rnd (num_mul rnd (bestBid xBase) (bestBid bridge)) (bestAsk xIrt);
          grossPct = num_mul rnd (num_sub rnd rate (Fin 1)) (Fin 100);
          netPct = num_sub rnd grossPct totalFee;
          l1 = bestAskQty xIrt;
          l2 = bestBidQty xBase;
          l3 = (if num_gt (bestBid xBase) (Fin 0)
                then num_div rnd (bestBidQty bridge) (bestBid xBase) else Fin 0);
          maxX = Math_min [l1, l2, l3];
          vol = num_mul rnd maxX (bestAsk xIrt);
          profit = num_mul rnd (num_div rnd netPct (Fin 100)) vol;
          bn = (if strict_eq maxX l1 then 0 else if strict_eq maxX l2 then 1 else 2)
      in \<lparr>type = triangle, assets = [assetE e], base = baseCurrency, direction = cw,
          legs =
            [\<lparr>pair = symbol xIrt, side = buy, price = bestAsk xIrt,
              availableQty = bestAskQty xIrt, qtyUnit = assetE e\<rparr>,
             \<lparr>pair = symbol xBase, side = sell, price = bestBid xBase,
              availableQty = bestBidQty xBase, qtyUnit = assetE e\<rparr>,
             \<lparr>pair = symbol bridge, side = sell, price = bestBid bridge,
              availableQty = bestBidQty bridge, qtyUnit = baseCurrency\<rparr>],
          rate = rate, grossPct = grossPct, feePct = totalFee, netPct = netPct,
          maxVolumeIRT = vol, expectedProfitIRT = profit, bottleneckLeg = bn\<rparr>)"

text \<open>The record built in the CCW block.\<close>

definition ccwCandidate ::
  "rounding \<Rightarrow> string \<Rightarrow> number \<Rightarrow> MarketPair \<Rightarrow> AssetEntry \<Rightarrow> Opportunity" where
  "ccwCandidate rnd baseCurrency totalFee bridge e =
     (let xIrt = irt e; xBase = baseE e;
          rate = num_div rnd (bestBid xIrt) (num_mul rnd (bestAsk xBase) (bestAsk bridge));
          grossPct = num_mul rnd (num_sub rnd rate (Fin 1)) (Fin 100);
          netPct = num_sub rnd grossPct totalFee;
          l1 = (if num_gt (bestAsk xBase) (Fin 0)
                then num_div rnd (bestAskQty bridge) (bestAsk xBase) else Fin 0);
          l2 = bestAskQty xBase;
          l3 = bestBidQty xIrt;
          maxX = Math_min [l1, l2, l3];
          vol = num_mul rnd (num_mul rnd maxX (bestAsk xBase)) (bestAsk bridge);
          profit = num_mul rnd (num_div rnd netPct (Fin 100)) vol;
          bn = (if strict_eq maxX l1 then 0 else if strict_eq maxX l2 then 1 else 2)
      in \<lparr>type = triangle, assets = [assetE e], base = baseCurrency, direction = ccw,
          legs =
            [\<lparr>pair = symbol bridge, side = buy, price = bestAsk bridge,
              availableQty = bestAskQty bridge, qtyUnit = baseCurrency\<rparr>,
             \<lparr>pair = symbol xBase, side = buy, price = bestAsk xBase,
              availableQty = bestAskQty xBase, qtyUnit = assetE e\<rparr>,
             \<lparr>pair = symbol xIrt, side = sell, price = bestBid xIrt,
              availableQty = bestBidQty xIrt, qtyUnit = assetE e\<rparr>],
          rate = rate, grossPct = grossPct, feePct = totalFee, netPct = netPct,
          maxVolumeIRT = vol, expectedProfitIRT = profit, bottleneckLeg = bn\<rparr>)"

text \<open>The test \<^verbatim>\<open>isFinite(rate) && vol > 0\<close> guarding each push of the triangle finder.\<close>

definition pushIf :: "Opportunity \<Rightarrow> Opportunity list" where
  "pushIf c = (if isFinite (rate c) \<and> num_gt (maxVolumeIRT c) (Fin 0) then [c] else [])"

fun trianglesLoop ::
  "rounding \<Rightarrow> string \<Rightarrow> number \<Rightarrow> MarketPair \<Rightarrow> AssetEntry list \<Rightarrow> Opportunity list" where
  "trianglesLoop rnd baseCurrency totalFee bridge [] = []"
| "trianglesLoop rnd baseCurrency totalFee bridge (e # es) =
     pushIf (cwCandidate rnd baseCurrency totalFee bridge e)
     @ pushIf (ccwCandidate rnd baseCurrency totalFee bridge e)
     @ trianglesLoop rnd baseCurrency totalFee bridge es"

definition findTriangles ::
  "rounding \<Rightarrow> MarketPair list \<Rightarrow> string \<Rightarrow> number \<Rightarrow> Opportunity list" where
  "findTriangles rnd pairs baseCurrency feeRatePct =
     (case indexPairs pairs (pairKey baseCurrency ''IRT'') of
        None \<Rightarrow> []
      | Some bridge \<Rightarrow>
          trianglesLoop rnd baseCurrency (num_mul rnd (Fin 3) feeRatePct) bridge
            (buildAssetEntries pairs baseCurrency))"

section \<open>Strategy 2: cross-pair (4 legs)\<close>

record RatioEntry = AssetEntry +
  sellRatio :: number
  buyRatio :: number

definition withRatio :: "rounding \<Rightarrow> AssetEntry \<Rightarrow> RatioEntry" where
  "withRatio rnd e =
     \<lparr>assetE = assetE e, irt = irt e, baseE = baseE e,
      sellRatio = num_div rnd (bestBid (baseE e)) (bestAsk (irt e)),
      buyRatio = num_div rnd (bestBid (irt e)) (bestAsk (baseE e))\<rparr>"

text \<open>The record built in the body of the double loop.\<close>

definition crossCandidate ::
  "rounding \<Rightarrow> string \<Rightarrow> number \<Rightarrow> RatioEntry \<Rightarrow> RatioEntry \<Rightarrow> Opportunity" where
  "crossCandidate rnd baseCurrency totalFee seller buyer =
     (let rate = num_mul rnd (sellRatio seller) (buyRatio buyer);
          grossPct = num_mul rnd (num_sub rnd rate (Fin 1)) (Fin 100);
          netPct = num_sub rnd grossPct totalFee;
          l1 = bestAskQty (irt seller);
          l2 = bestBidQty (baseE seller);
          l3 = (if num_gt (bestBid (baseE seller)) (Fin 0)
                then num_div rnd (num_mul rnd (bestAskQty (baseE buyer)) (bestAsk (baseE buyer)))
                       (bestBid (baseE seller))
                else Fin 0);
          l4 = (if num_gt (bestBid (baseE seller)) (Fin 0)
                then num_div rnd (num_mul rnd (bestBidQty (irt buyer)) (bestAsk (baseE buyer)))
                       (bestBid (baseE seller))
                else Fin 0);
          maxX = Math_min [l1, l2, l3, l4];
          vol = num_mul rnd maxX (bestAsk (irt seller));
          profit = num_mul rnd (num_div rnd netPct (Fin 100)) vol;
          bn = (if strict_eq maxX l1 then 0 else if strict_eq maxX l2 then 1
                else if strict_eq maxX l3 then 2 else 3)
      in \<lparr>type = cross, assets = [assetE seller, assetE buyer], base = baseCurrency,
          direction = cross_dir,
          legs =
            [\<lparr>pair = symbol (irt seller), side = buy, price = bestAsk (irt seller),
              availableQty = bestAskQty (irt seller), qtyUnit = assetE seller\<rparr>,
             \<lparr>pair = symbol (baseE seller), side = sell, price = bestBid (baseE seller),
              availableQty = bestBidQty (baseE seller), qtyUnit = assetE seller\<rparr>,
             \<lparr>pair = symbol (baseE buyer), side = buy, price = bestAsk (baseE buyer),
              availableQty = bestAskQty (baseE buyer), qtyUnit = assetE buyer\<rparr>,
             \<lparr>pair = symbol (irt buyer), side = sell, price = bestBid (irt buyer),
              availableQty = bestBidQty (irt buyer), qtyUnit = assetE buyer\<rparr>],
          rate = rate, grossPct = grossPct, feePct = totalFee, netPct = netPct,
          maxVolumeIRT = vol, expectedProfitIRT = profit, bottleneckLeg = bn\<rparr>)"

text \<open>One turn of the inner loop: the three \<^verbatim>\<open>continue\<close> tests, then the push.\<close>

definition crossStep ::
  "rounding \<Rightarrow> string \<Rightarrow> number \<Rightarrow> RatioEntry \<Rightarrow> RatioEntry \<Rightarrow> Opportunity list" where
  "crossStep rnd baseCurrency totalFee seller buyer =
     (if assetE seller = assetE buyer then []
      else let c = crossCandidate rnd baseCurrency totalFee seller buyer
           in if num_lt (netPct c) (Fin (- 5)) then []
              else if \<not> isFinite (rate c) \<or> num_le (maxVolumeIRT c) (Fin 0) then []
              else [c])"

text \<open>The array \<^verbatim>\<open>results\<close> after the double loop, before it is sorted and cut.\<close>

definition crossResults ::
  "rounding \<Rightarrow> MarketPair list \<Rightarrow> string \<Rightarrow> number \<Rightarrow> Opportunity list" where
  "crossResults rnd pairs baseCurrency feeRatePct =
     (let entries = buildAssetEntries pairs baseCurrency;
          totalFee = num_mul rnd (Fin 4) feeRatePct;
          withRatios = map (withRatio rnd) entries;
          K = min (length withRatios) 60;
          bySell = take K (sortBy (\<lambda>a b. num_sub rnd (sellRatio b) (sellRatio a)) withRatios);
          byBuy = take K (sortBy (\<lambda>a b. num_sub rnd (buyRatio b) (buyRatio a)) withRatios)
      in concat (map (\<lambda>seller.
           concat (map (\<lambda>buyer. crossStep rnd baseCurrency totalFee seller buyer) byBuy))
           bySell))"

definition findCrossPairs ::
  "rounding \<Rightarrow> MarketPair list \<Rightarrow> string \<Rightarrow> number \<Rightarrow> number \<Rightarrow> Opportunity list" where
  "findCrossPairs rnd pairs baseCurrency feeRatePct maxResults =
     sliceTo maxResults
       (sortBy (\<lambda>a b. num_sub rnd (netPct b) (netPct a))
          (crossResults rnd pairs baseCurrency feeRatePct))"

section \<open>Combined finder\<close>

text \<open>The call of the cross-pair finder leaves \<open>maxResults\<close> at its default, 200.\<close>

definition findAllOpportunities ::
  "rounding \<Rightarrow> MarketPair list \<Rightarrow> string \<Rightarrow> number \<Rightarrow> Opportunity list" where
  "findAllOpportunities rnd pairs baseCurrency feeRatePct =
     (let triangles = findTriangles rnd pairs baseCurrency feeRatePct;
          crosses = findCrossPairs rnd pairs baseCurrency feeRatePct (Fin 200)
      in sortBy (\<lambda>a b. num_sub rnd (netPct b) (netPct a)) (triangles @ crosses))"

section \<open>Notions of the specification\<close>

text \<open>A ticker in which the separator of the index keys does not occur.\<close>

definition noColon :: "string \<Rightarrow> bool" where
  "noColon s = (CHR '':'' \<notin> set s)"

text \<open>
  The suffix rule in the words of the specification, with the bridge ticker as a
  parameter: the quote is the local currency when the symbol ends in \<open>IRT\<close>, the bridge
  ticker when the symbol ends in it, and the entry is skipped otherwise.
\<close>

definition suffixRule :: "string \<Rightarrow> string \<Rightarrow> (string \<times> string) option" where
  "suffixRule bridgeTicker s =
     (if endsWith s ''IRT'' then Some (dropLast 3 s, ''IRT'')
      else if endsWith s bridgeTicker then Some (dropLast (length bridgeTicker) s, bridgeTicker)
      else None)"

text \<open>
  The invariant of a market pair: both best prices are finite and greater than zero,
  both quantities are finite and not negative.
\<close>

definition validPair :: "MarketPair \<Rightarrow> bool" where
  "validPair p =
     (isFinite (bestBid p) \<and> num_gt (bestBid p) (Fin 0) \<and>
      isFinite (bestAsk p) \<and> num_gt (bestAsk p) (Fin 0) \<and>
      isFinite (bestBidQty p) \<and> num_le (Fin 0) (bestBidQty p) \<and>
      isFinite (bestAskQty p) \<and> num_le (Fin 0) (bestAskQty p))"

text \<open>
  What the theorems that depend on the rounding ask of it. A sound rounding never
  answers NaN, keeps zero, and keeps the sign of what it rounds. An IEEE rounding is
  sound, answers only numbers that it leaves unchanged, and does not round the
  difference of two distinct such numbers to zero (gradual underflow). Rounding to
  nearest in IEEE-754 has all of these properties, and so has exact arithmetic.
\<close>

definition soundRounding :: "rounding \<Rightarrow> bool" where
  "soundRounding rnd =
     ((\<forall>x. rnd x \<noteq> NaN) \<and> rnd 0 = Fin 0 \<and>
      (\<forall>x. 0 \<le> x \<longrightarrow> num_le (Fin 0) (rnd x)) \<and>
      (\<forall>x. x \<le> 0 \<longrightarrow> num_le (rnd x) (Fin 0)))"

definition ieeeRounding :: "rounding \<Rightarrow> bool" where
  "ieeeRounding rnd =
     (soundRounding rnd \<and>
      (\<forall>x y. rnd x = Fin y \<longrightarrow> rnd y = Fin y) \<and>
      (\<forall>x y. rnd x = Fin x \<and> rnd y = Fin y \<and> x \<noteq> y \<longrightarrow> rnd (x - y) \<noteq> Fin 0))"

text \<open>
  A monotone rounding keeps the order of what it rounds, and leaves \<open>-1\<close> and \<open>-100\<close>
  unchanged. Rounding to nearest in IEEE-754 does, overflow to an infinity included
  (both numbers are doubles), and so does exact arithmetic.
\<close>

definition monotoneRounding :: "rounding \<Rightarrow> bool" where
  "monotoneRounding rnd =
     ((\<forall>x y. x \<le> y \<longrightarrow> num_le (rnd x) (rnd y)) \<and>
      rnd (- 1) = Fin (- 1) \<and> rnd (- 100) = Fin (- 100))"

text \<open>
  The capacity of each leg of an opportunity in the common unit of its cycle (units
  of the first asset), read off the legs with the conversions of the finders.
\<close>

definition capacities :: "rounding \<Rightarrow> Opportunity \<Rightarrow> number list" where
  "capacities rnd x =
     (case (direction x, legs x) of
        (cw, [a, b, c]) \<Rightarrow>
          [availableQty a, availableQty b,
           if num_gt (price b) (Fin 0) then num_div rnd (availableQty c) (price b) else Fin 0]
      | (ccw, [a, b, c]) \<Rightarrow>
          [if num_gt (price b) (Fin 0) then num_div rnd (availableQty a) (price b) else Fin 0,
           availableQty b, availableQty c]
      | (cross_dir, [a, b, c, d]) \<Rightarrow>
          [availableQty a, availableQty b,
           if num_gt (price b) (Fin 0)
           then num_div rnd (num_mul rnd (availableQty c) (price c)) (price b) else Fin 0,
           if num_gt (price b) (Fin 0)
           then num_div rnd (num_mul rnd (availableQty d) (price c)) (price b) else Fin 0]
      | _ \<Rightarrow> [])"

text \<open>
  The notional in the local currency of a volume given in the common unit: the
  volume times the price of the first leg, in the counter-clockwise triangle times
  the price of the second leg and then of the first.
\<close>

definition notional :: "rounding \<Rightarrow> Opportunity \<Rightarrow> number \<Rightarrow> number" where
  "notional rnd x v =
     (case (direction x, legs x) of
        (ccw, [a, b, c]) \<Rightarrow> num_mul rnd (num_mul rnd v (price b)) (price a)
      | (d, a # ls) \<Rightarrow> num_mul rnd v (price a)
      | _ \<Rightarrow> NaN)"

text \<open>Index \<open>i\<close> holds a least capacity, and every capacity before it is greater.\<close>

definition firstMinimum :: "number list \<Rightarrow> nat \<Rightarrow> bool" where
  "firstMinimum caps i =
     (i < length caps \<and> list_all (\<lambda>c. num_le (caps ! i) c) caps \<and>
      list_all (\<lambda>c. num_lt (caps ! i) c) (take i caps))"

text \<open>No opportunity of the list has a smaller \<open>netPct\<close> than a later one.\<close>

definition descending :: "Opportunity list \<Rightarrow> bool" where
  "descending xs = sorted_wrt (\<lambda>a b. \<not> num_lt (netPct a) (netPct b)) xs"

text \<open>A sort key that the comparison function orders like its value: not NaN, and left
  unchanged by the rounding when it is finite.\<close>

definition orderedKey :: "rounding \<Rightarrow> number \<Rightarrow> bool" where
  "orderedKey rnd k = (case k of Fin x \<Rightarrow> rnd x = Fin x | NaN \<Rightarrow> False | _ \<Rightarrow> True)"

text \<open>
  A rounding is accurate when, for an argument of magnitude between \<open>10\<^sup>-\<^sup>6\<close> and
  \<open>10\<^sup>6\<close>, it answers a finite number with a relative error of at most \<open>2\<^sup>-\<^sup>5\<^sup>3\<close>, as
  rounding to nearest does for IEEE-754 doubles in their normal range.
\<close>

definition accurate :: "rounding \<Rightarrow> bool" where
  "accurate rnd =
     (\<forall>x. 1 / 10 ^ 6 \<le> \<bar>x\<bar> \<and> \<bar>x\<bar> \<le> 10 ^ 6 \<longrightarrow>
          (\<exists>y. rnd x = Fin y \<and> \<bar>y - x\<bar> \<le> \<bar>x\<bar> / 2 ^ 53))"

text \<open>A number that is finite and equal to \<open>c\<close> to nine decimal places.\<close>

definition near :: "number \<Rightarrow> real \<Rightarrow> bool" where
  "near a c = (case a of Fin y \<Rightarrow> \<bar>y - c\<bar> \<le> 1 / 10 ^ 9 | _ \<Rightarrow> False)"

text \<open>The assets that have both a pair quoted in \<open>IRT\<close> and a pair quoted in the bridge
  currency, each listed once.\<close>

definition bridgeableAssets :: "MarketPair list \<Rightarrow> string \<Rightarrow> string list" where
  "bridgeableAssets pairs baseCurrency =
     remdups (filter (\<lambda>a. list_ex (\<lambda>q. asset q = a \<and> quote q = baseCurrency) pairs)
       (map asset (filter (\<lambda>p. quote p = ''IRT'') pairs)))"

section \<open>Example snapshots\<close>

definition mkPair :: "string \<Rightarrow> string \<Rightarrow> real \<Rightarrow> real \<Rightarrow> real \<Rightarrow> real \<Rightarrow> MarketPair" where
  "mkPair a q bid bidQty ask askQty =
     \<lparr>symbol = a @ q, asset = a, quote = q, bestBid = Fin bid, bestBidQty = Fin bidQty,
      bestAsk = Fin ask, bestAskQty = Fin askQty\<rparr>"

text \<open>Two assets with both of their books, and no book of the bridge currency itself.\<close>

definition twoAssets :: "MarketPair list" where
  "twoAssets = [mkPair ''X'' ''IRT'' 1 1 1 1, mkPair ''X'' ''USDT'' 1 1 1 1,
                mkPair ''Y'' ''IRT'' 1 1 1 1, mkPair ''Y'' ''USDT'' 1 1 1 1]"

text \<open>The same with the book of the bridge currency.\<close>

definition fivePairs :: "MarketPair list" where
  "fivePairs = twoAssets @ [mkPair ''USDT'' ''IRT'' 1 1 1 1]"

text \<open>A conversion of the few number strings the example snapshots use.\<close>

definition exampleNumber :: "string \<Rightarrow> number" where
  "exampleNumber s =
     (if s = ''0'' then Fin 0 else if s = ''1'' then Fin 1 else if s = ''2'' then Fin 2
      else if s = ''-1'' then Fin (- 1) else if s = ''Infinity'' then PInf else NaN)"

definition unitBook :: RawValue where
  "unitBook = Object \<lparr>bids = Some [[''1'', ''1'']], asks = Some [[''1'', ''1'']]\<rparr>"

text \<open>Pairs whose tickers hold the separator of the index keys: \<open>US\<close> quoted in
  \<open>DT:IRT\<close>, and \<open>X\<close> quoted in \<open>IRT\<close> and in \<open>US:DT\<close>.\<close>

definition colonPairs :: "MarketPair list" where
  "colonPairs = [mkPair ''US'' ''DT:IRT'' 1 1 1 1, mkPair ''X'' ''IRT'' 1 1 1 1,
                 mkPair ''X'' ''US:DT'' 1 1 1 1]"

text \<open>A snapshot whose symbols hold the separator of the index keys.\<close>

definition colonSnapshot :: "(string \<times> RawValue) list" where
  "colonSnapshot = [(''Z:USDTIRT'', unitBook), (''AIRT'', unitBook), (''A:ZUSDT'', unitBook)]"

text \<open>A snapshot with a symbol that ends in another four-letter ticker.\<close>

definition usdcSnapshot :: "(string \<times> RawValue) list" where
  "usdcSnapshot = [(''XUSDC'', unitBook), (''XIRT'', unitBook), (''status'', NonObject)]"

text \<open>A snapshot with entries of every kind that the normalizer skips or clamps.\<close>

definition messySnapshot :: "(string \<times> RawValue) list" where
  "messySnapshot =
     [(''AIRT'', Object \<lparr>bids = Some [[''2'', ''-1'']], asks = Some [[''2'', ''Infinity'']]\<rparr>),
      (''BIRT'', Object \<lparr>bids = None, asks = Some [[''1'', ''1'']]\<rparr>),
      (''CIRT'', Object \<lparr>bids = Some [[''1'', ''1'']], asks = Some []\<rparr>),
      (''DIRT'', Object \<lparr>bids = Some [[''0'', ''1'']], asks = Some [[''1'', ''1'']]\<rparr>),
      (''EIRT'', Object \<lparr>bids = Some [[''1'', ''1'']], asks = Some [[''Infinity'', ''1'']]\<rparr>),
      (''FIRT'', Nullish),
      (''GIRT'', Object \<lparr>bids = Some [[''1'']], asks = Some [[''2'', ''2'']]\<rparr>)]"

text \<open>Fifteen assets with both of their books, and no book of the bridge currency.\<close>

definition fifteenAssets :: "MarketPair list" where
  "fifteenAssets =
     concat (map (\<lambda>a. [mkPair a ''IRT'' 1 1 1 1, mkPair a ''USDT'' 1 1 1 1])
       [''ADA'', ''BNB'', ''BTC'', ''DAI'', ''DOGE'', ''DOT'', ''ETC'', ''ETH'', ''LINK'', ''LTC'',
        ''SHIB'', ''SOL'', ''TRX'', ''UNI'', ''XRP''])"

text \<open>Two assets and the bridge currency, with books of unequal depth.\<close>

definition unevenPairs :: "MarketPair list" where
  "unevenPairs =
     [mkPair ''X'' ''IRT'' 1 4 2 5, mkPair ''X'' ''USDT'' 2 3 4 1,
      mkPair ''Y'' ''IRT'' 1 1 1 1, mkPair ''Y'' ''USDT'' 1 1 1 1,
      mkPair ''USDT'' ''IRT'' 1 8 1 8]"

text \<open>
  Two assets without the book of the bridge currency. Selling \<open>X\<close> and buying \<open>Y\<close>
  doubles the money, selling \<open>Y\<close> and buying \<open>X\<close> makes four times as much, and \<open>X\<close> is
  first both among the sellers and among the buyers.
\<close>

definition rankedPairs :: "MarketPair list" where
  "rankedPairs =
     [mkPair ''X'' ''IRT'' 4 1 1 1, mkPair ''X'' ''USDT'' 2 1 1 1,
      mkPair ''Y'' ''IRT'' 1 1 1 1, mkPair ''Y'' ''USDT'' 1 1 1 1]"

text \<open>An asset whose sale through the bridge would double the money, with nothing on
  offer at its ask.\<close>

definition zeroDepthPairs :: "MarketPair list" where
  "zeroDepthPairs =
     [mkPair ''X'' ''IRT'' 1 1 1 0, mkPair ''X'' ''USDT'' 2 1 2 1,
      mkPair ''USDT'' ''IRT'' 1 1 1 1]"

text \<open>A raw snapshot of two assets and the bridge currency.\<close>

definition smallSnapshot :: "(string \<times> RawValue) list" where
  "smallSnapshot =
     [(''status'', NonObject), (''XIRT'', unitBook), (''XUSDT'', unitBook),
      (''YIRT'', unitBook), (''YUSDT'', unitBook), (''USDTIRT'', unitBook)]"

text \<open>
  The snapshot of the end-to-end example of the specification: \<open>X/IRT\<close> with bid 990 and
  ask 1000, \<open>X/USDT\<close> with bid 1.05 and ask 1.06, all four quantities 10, and
  \<open>USDT/IRT\<close> with bid 990 and ask 1000. The decimal fractions are the numbers that
  the rounding makes of them; the quantities of the bridge pair are parameters.
\<close>

definition examplePairs :: "rounding \<Rightarrow> number \<Rightarrow> number \<Rightarrow> MarketPair list" where
  "examplePairs rnd bridgeBidQty bridgeAskQty =
     [\<lparr>symbol = ''XIRT'', asset = ''X'', quote = ''IRT'', bestBid = Fin 990,
       bestBidQty = Fin 10, bestAsk = Fin 1000, bestAskQty = Fin 10\<rparr>,
      \<lparr>symbol = ''XUSDT'', asset = ''X'', quote = ''USDT'', bestBid = rnd (105 / 100),
       bestBidQty = Fin 10, bestAsk = rnd (106 / 100), bestAskQty = Fin 10\<rparr>,
      \<lparr>symbol = ''USDTIRT'', asset = ''USDT'', quote = ''IRT'', bestBid = Fin 990,
       bestBidQty = bridgeBidQty, bestAsk = Fin 1000, bestAskQty = bridgeAskQty\<rparr>]"

section \<open>Properties\<close>

subsection \<open>The sort keeps the elements\<close>

lemma mset_insertBy: "mset (insertBy cmp x ys) = add_mset x (mset ys)"
  by (induction ys) auto

lemma mset_sortBy: "mset (sortBy cmp xs) = mset xs"
  unfolding sortBy_def by (induction xs) (auto simp: mset_insertBy)

lemma set_sortBy: "set (sortBy cmp xs) = set xs"
  using mset_sortBy [of cmp xs] by (metis set_mset_mset)

lemma length_sortBy: "length (sortBy cmp xs) = length xs"
  using mset_sortBy [of cmp xs] by (metis size_mset)

subsection \<open>Where an opportunity comes from\<close>

lemma in_pushIf: "x \<in> set (pushIf c) \<Longrightarrow> x = c"
  by (auto simp: pushIf_def split: if_splits)

lemma in_trianglesLoop:
  "x \<in> set (trianglesLoop rnd B T bridge es) \<Longrightarrow>
   \<exists>e \<in> set es. x \<in> set (pushIf (cwCandidate rnd B T bridge e)) \<or>
                 x \<in> set (pushIf (ccwCandidate rnd B T bridge e))"
  by (induction es) auto

lemma in_findTriangles:
  assumes "x \<in> set (findTriangles rnd pairs B fee)"
  obtains bridge e where "indexPairs pairs (pairKey B ''IRT'') = Some bridge"
    and "e \<in> set (buildAssetEntries pairs B)"
    and "x \<in> set (pushIf (cwCandidate rnd B (num_mul rnd (Fin 3) fee) bridge e)) \<or>
         x \<in> set (pushIf (ccwCandidate rnd B (num_mul rnd (Fin 3) fee) bridge e))"
proof (cases "indexPairs pairs (pairKey B ''IRT'')")
  case None
  with assms show thesis by (simp add: findTriangles_def)
next
  case (Some bridge)
  with assms have "x \<in> set (trianglesLoop rnd B (num_mul rnd (Fin 3) fee) bridge
      (buildAssetEntries pairs B))"
    by (simp add: findTriangles_def)
  from in_trianglesLoop [OF this] Some that show thesis by blast
qed

lemma in_crossStep: "x \<in> set (crossStep rnd B T s b) \<Longrightarrow> x = crossCandidate rnd B T s b"
  by (auto simp: crossStep_def Let_def split: if_splits)

lemma in_crossResults:
  assumes "x \<in> set (crossResults rnd pairs B fee)"
  obtains s b where "s \<in> set (map (withRatio rnd) (buildAssetEntries pairs B))"
    and "b \<in> set (map (withRatio rnd) (buildAssetEntries pairs B))"
    and "x \<in> set (crossStep rnd B (num_mul rnd (Fin 4) fee) s b)"
proof -
  let ?ws = "map (withRatio rnd) (buildAssetEntries pairs B)"
  from assms obtain s b where
    s: "s \<in> set (take (min (length ?ws) 60)
           (sortBy (\<lambda>a b. num_sub rnd (sellRatio b) (sellRatio a)) ?ws))"
    and b: "b \<in> set (take (min (length ?ws) 60)
           (sortBy (\<lambda>a b. num_sub rnd (buyRatio b) (buyRatio a)) ?ws))"
    and x: "x \<in> set (crossStep rnd B (num_mul rnd (Fin 4) fee) s b)"
    unfolding crossResults_def Let_def by auto
  from s have "s \<in> set ?ws"
    using set_sortBy by (metis in_set_takeD)
  moreover from b have "b \<in> set ?ws"
    using set_sortBy by (metis in_set_takeD)
  ultimately show thesis using x that by blast
qed

lemma sliceTo_take: "\<exists>n. sliceTo m xs = take n xs"
proof (cases m)
  case (Fin x)
  then show ?thesis by (simp add: sliceTo_def Let_def) blast
next
  case PInf
  then have "sliceTo m xs = take (length xs) xs" by (simp add: sliceTo_def)
  then show ?thesis ..
next
  case NInf
  then have "sliceTo m xs = take 0 xs" by (simp add: sliceTo_def)
  then show ?thesis ..
next
  case NaN
  then have "sliceTo m xs = take 0 xs" by (simp add: sliceTo_def)
  then show ?thesis ..
qed

lemma sliceTo_Nil: "sliceTo m [] = []"
  using sliceTo_take [of m "[]"] by auto

lemma sliceTo_count: "sliceTo (Fin (real n)) xs = take n xs"
  by (simp add: sliceTo_def)

lemma in_sliceTo: "x \<in> set (sliceTo m xs) \<Longrightarrow> x \<in> set xs"
  using sliceTo_take [of m xs] by (auto dest: in_set_takeD)

lemma length_sliceTo:
  assumes "num_le (Fin 0) m"
  shows "num_le (Fin (real (length (sliceTo m xs)))) m"
proof (cases m)
  case (Fin x)
  with assms have x: "0 \<le> x" by (simp add: num_le_def)
  then have "0 \<le> \<lfloor>x\<rfloor>" by simp
  with x Fin have "length (sliceTo m xs) \<le> nat \<lfloor>x\<rfloor>"
    by (simp add: sliceTo_def)
  then have "real (length (sliceTo m xs)) \<le> real (nat \<lfloor>x\<rfloor>)" by simp
  also from x have "\<dots> \<le> x" by simp
  finally show ?thesis using Fin by (simp add: num_le_def)
qed (use assms in \<open>simp_all add: num_le_def\<close>)

lemma in_findCrossPairs:
  "x \<in> set (findCrossPairs rnd pairs B fee m) \<Longrightarrow> x \<in> set (crossResults rnd pairs B fee)"
  unfolding findCrossPairs_def using set_sortBy in_sliceTo by fastforce

lemma in_findAllOpportunities:
  "x \<in> set (findAllOpportunities rnd pairs B fee) \<Longrightarrow>
   x \<in> set (findTriangles rnd pairs B fee) \<or> x \<in> set (crossResults rnd pairs B fee)"
  unfolding findAllOpportunities_def Let_def
  by (auto simp: set_sortBy dest: in_findCrossPairs)

subsection \<open>Fee accounting\<close>

lemma cwCandidate_fee:
  "type (cwCandidate rnd B T bridge e) = triangle"
  "feePct (cwCandidate rnd B T bridge e) = T"
  "netPct (cwCandidate rnd B T bridge e) =
     num_sub rnd (grossPct (cwCandidate rnd B T bridge e)) T"
  by (simp_all add: cwCandidate_def Let_def)

lemma ccwCandidate_fee:
  "type (ccwCandidate rnd B T bridge e) = triangle"
  "feePct (ccwCandidate rnd B T bridge e) = T"
  "netPct (ccwCandidate rnd B T bridge e) =
     num_sub rnd (grossPct (ccwCandidate rnd B T bridge e)) T"
  by (simp_all add: ccwCandidate_def Let_def)

lemma crossCandidate_fee:
  "type (crossCandidate rnd B T s b) = cross"
  "feePct (crossCandidate rnd B T s b) = T"
  "netPct (crossCandidate rnd B T s b) =
     num_sub rnd (grossPct (crossCandidate rnd B T s b)) T"
  by (simp_all add: crossCandidate_def Let_def)

lemma triangle_fee:
  assumes "x \<in> set (findTriangles rnd pairs B fee)"
  shows "type x = triangle \<and> feePct x = num_mul rnd (Fin 3) fee \<and>
         netPct x = num_sub rnd (grossPct x) (feePct x)"
  using assms
  by (elim in_findTriangles) (auto dest!: in_pushIf simp: cwCandidate_fee ccwCandidate_fee)

lemma cross_fee:
  assumes "x \<in> set (crossResults rnd pairs B fee)"
  shows "type x = cross \<and> feePct x = num_mul rnd (Fin 4) fee \<and>
         netPct x = num_sub rnd (grossPct x) (feePct x)"
  using assms by (elim in_crossResults) (auto dest!: in_crossStep simp: crossCandidate_fee)

text \<open>
  C1. Every opportunity returned by \<open>findTriangles\<close> is of type triangle and carries
  \<open>feePct = 3 * feeRatePct\<close>; every opportunity returned by \<open>findCrossPairs\<close> is of
  type cross and carries \<open>feePct = 4 * feeRatePct\<close>; every opportunity returned by
  \<open>findAllOpportunities\<close> carries the one or the other according to its type; and in
  all three \<open>netPct\<close> is the number \<open>grossPct - feePct\<close>. The product and the
  difference are those of the program's arithmetic, whatever the rounding.
\<close>

theorem fee_accounting:
  "(\<forall>x \<in> set (findTriangles rnd pairs B fee).
      type x = triangle \<and> feePct x = num_mul rnd (Fin 3) fee \<and>
      netPct x = num_sub rnd (grossPct x) (feePct x)) \<and>
   (\<forall>x \<in> set (findCrossPairs rnd pairs B fee maxResults).
      type x = cross \<and> feePct x = num_mul rnd (Fin 4) fee \<and>
      netPct x = num_sub rnd (grossPct x) (feePct x)) \<and>
   (\<forall>x \<in> set (findAllOpportunities rnd pairs B fee).
      feePct x = num_mul rnd (Fin (if type x = triangle then 3 else 4)) fee \<and>
      netPct x = num_sub rnd (grossPct x) (feePct x))"
proof (intro conjI ballI)
  fix x assume "x \<in> set (findAllOpportunities rnd pairs B fee)"
  then consider "x \<in> set (findTriangles rnd pairs B fee)"
    | "x \<in> set (crossResults rnd pairs B fee)"
    using in_findAllOpportunities by blast
  then have "feePct x = num_mul rnd (Fin (if type x = triangle then 3 else 4)) fee \<and>
      netPct x = num_sub rnd (grossPct x) (feePct x)"
    by cases (use triangle_fee cross_fee in fastforce)+
  then show "feePct x = num_mul rnd (Fin (if type x = triangle then 3 else 4)) fee"
    and "netPct x = num_sub rnd (grossPct x) (feePct x)" by simp_all
qed (use triangle_fee cross_fee in_findCrossPairs in blast)+

lemma fivePairs_triangles: "findTriangles Fin fivePairs ''USDT'' (Fin 1) \<noteq> []"
  by code_simp

lemma fivePairs_crosses: "findCrossPairs Fin fivePairs ''USDT'' (Fin 1) (Fin 200) \<noteq> []"
  by code_simp

lemma fivePairs_all: "findAllOpportunities Fin fivePairs ''USDT'' (Fin 1) \<noteq> []"
  by code_simp

theorem fee_accounting_witness:
  "\<exists>x y z. x \<in> set (findTriangles Fin fivePairs ''USDT'' (Fin 1)) \<and>
     type x = triangle \<and> feePct x = Fin 3 \<and> netPct x = num_sub Fin (grossPct x) (Fin 3) \<and>
     y \<in> set (findCrossPairs Fin fivePairs ''USDT'' (Fin 1) (Fin 200)) \<and>
     type y = cross \<and> feePct y = Fin 4 \<and> netPct y = num_sub Fin (grossPct y) (Fin 4) \<and>
     z \<in> set (findAllOpportunities Fin fivePairs ''USDT'' (Fin 1)) \<and>
     feePct z = Fin (if type z = triangle then 3 else 4) \<and>
     netPct z = num_sub Fin (grossPct z) (feePct z)"
proof -
  obtain x where x: "x \<in> set (findTriangles Fin fivePairs ''USDT'' (Fin 1))"
    using fivePairs_triangles by (meson last_in_set)
  obtain y where y: "y \<in> set (findCrossPairs Fin fivePairs ''USDT'' (Fin 1) (Fin 200))"
    using fivePairs_crosses by (meson last_in_set)
  obtain z where z: "z \<in> set (findAllOpportunities Fin fivePairs ''USDT'' (Fin 1))"
    using fivePairs_all by (meson last_in_set)
  note acc = fee_accounting [of Fin fivePairs "''USDT''" "Fin 1" "Fin 200"]
  from acc x have "type x = triangle \<and> feePct x = Fin 3 \<and>
      netPct x = num_sub Fin (grossPct x) (Fin 3)" by auto
  moreover from acc y have "type y = cross \<and> feePct y = Fin 4 \<and>
      netPct y = num_sub Fin (grossPct y) (Fin 4)" by auto
  moreover from acc z have "feePct z = Fin (if type z = triangle then 3 else 4) \<and>
      netPct z = num_sub Fin (grossPct z) (feePct z)" by auto
  ultimately show ?thesis using x y z by blast
qed

subsection \<open>The index of the pairs\<close>

lemma fold_update_None:
  "fold (\<lambda>p idx. idx(f p \<mapsto> p)) ps m k = None \<longleftrightarrow> m k = None \<and> k \<notin> f ` set ps"
  by (induction ps arbitrary: m) auto

lemma fold_update_Some:
  "fold (\<lambda>p idx. idx(f p \<mapsto> p)) ps m k = Some p \<Longrightarrow> m k = Some p \<or> (p \<in> set ps \<and> f p = k)"
proof (induction ps arbitrary: m)
  case Nil
  then show ?case by simp
next
  case (Cons a ps)
  from Cons.prems have "fold (\<lambda>p idx. idx(f p \<mapsto> p)) ps (m(f a \<mapsto> a)) k = Some p"
    by (simp only: fold_simps)
  from Cons.IH [OF this] show ?case
    by (auto split: if_splits)
qed

lemma indexPairs_None:
  "indexPairs pairs k = None \<longleftrightarrow> (\<forall>p \<in> set pairs. pairKey (asset p) (quote p) \<noteq> k)"
  unfolding indexPairs_def by (subst fold_update_None) auto

lemma indexPairs_Some:
  "indexPairs pairs k = Some p \<Longrightarrow> p \<in> set pairs \<and> pairKey (asset p) (quote p) = k"
  unfolding indexPairs_def by (drule fold_update_Some) auto

lemma takeWhile_separator: "c \<notin> set xs \<Longrightarrow> takeWhile (\<lambda>x. x \<noteq> c) (xs @ c # ys) = xs"
  by (induction xs) auto

lemma before_separator:
  assumes "xs @ c # ys = xs' @ c # ys'" and "c \<notin> set xs" and "c \<notin> set xs'"
  shows "xs = xs' \<and> ys = ys'"
proof -
  have "takeWhile (\<lambda>x. x \<noteq> c) (xs @ c # ys) = xs"
    using assms(2) by (rule takeWhile_separator)
  moreover have "takeWhile (\<lambda>x. x \<noteq> c) (xs' @ c # ys') = xs'"
    using assms(3) by (rule takeWhile_separator)
  ultimately have "xs = xs'" using assms(1) by simp
  with assms(1) show ?thesis by simp
qed

lemma pairKey_inject:
  assumes "pairKey a q = pairKey a' q'" and "noColon q" and "noColon q'"
  shows "a = a' \<and> q = q'"
proof -
  from assms(1) have "rev (a @ CHR '':'' # q) = rev (a' @ CHR '':'' # q')"
    by (simp add: pairKey_def)
  then have "rev q @ CHR '':'' # rev a = rev q' @ CHR '':'' # rev a'" by simp
  from before_separator [OF this] assms(2,3) show ?thesis
    by (simp add: noColon_def)
qed

lemma entriesOf_Nil:
  "(\<forall>p \<in> set ps. quote p = ''IRT'' \<and> asset p \<noteq> B \<longrightarrow> idx (pairKey (asset p) B) = None)
   \<Longrightarrow> entriesOf idx B ps = []"
  by (induction ps) auto

subsection \<open>A missing bridge pair\<close>

text \<open>
  C2, as amended. When the quote tickers of the pair list hold no \<open>:\<close> and no pair of
  the list has asset \<open>B\<close> quoted in \<open>IRT\<close>, \<open>findTriangles\<close> returns the empty list.
  (The cross-pair finder never looks the pair \<open>B:IRT\<close> up.)
\<close>

theorem no_bridge_no_triangles:
  assumes "\<forall>p \<in> set pairs. noColon (quote p)"
    and "\<not> (\<exists>p \<in> set pairs. asset p = B \<and> quote p = ''IRT'')"
  shows "findTriangles rnd pairs B fee = []"
proof -
  have "indexPairs pairs (pairKey B ''IRT'') = None"
  proof (subst indexPairs_None, intro ballI notI)
    fix p assume p: "p \<in> set pairs" and k: "pairKey (asset p) (quote p) = pairKey B ''IRT''"
    have "noColon ''IRT''" by (simp add: noColon_def)
    with assms(1) p k have "asset p = B \<and> quote p = ''IRT''"
      using pairKey_inject by blast
    with assms(2) p show False by blast
  qed
  then show ?thesis by (simp add: findTriangles_def)
qed

theorem no_bridge_no_triangles_witness:
  "list_all (\<lambda>p. noColon (quote p)) twoAssets \<and>
   \<not> list_ex (\<lambda>p. asset p = ''USDT'' \<and> quote p = ''IRT'') twoAssets \<and>
   findTriangles Fin twoAssets ''USDT'' (Fin 0) = []"
proof -
  have h1: "\<forall>p \<in> set twoAssets. noColon (quote p)"
    by (simp add: twoAssets_def mkPair_def noColon_def)
  have h2: "\<not> (\<exists>p \<in> set twoAssets. asset p = ''USDT'' \<and> quote p = ''IRT'')"
    by (simp add: twoAssets_def mkPair_def)
  from no_bridge_no_triangles [OF h1 h2] h1 h2 show ?thesis
    by (simp add: list_all_iff list_ex_iff)
qed

text \<open>
  C2 as stated fails for the cross-pair finder: with two assets that each have both of
  their pairs and no pair of the bridge currency itself, it returns two opportunities.
  It also fails for the triangle finder when a ticker holds the separator of the index
  keys: for the bridge \<open>US:DT\<close> the key \<open>US:DT:IRT\<close> is the key of the pair of \<open>US\<close>
  quoted in \<open>DT:IRT\<close>, which is taken for the bridge pair.
\<close>

theorem no_bridge_cross_counterexample:
  "\<not> (\<not> (\<exists>p \<in> set twoAssets. asset p = ''USDT'' \<and> quote p = ''IRT'') \<longrightarrow>
       findTriangles Fin twoAssets ''USDT'' (Fin 0) = [] \<and>
       findCrossPairs Fin twoAssets ''USDT'' (Fin 0) (Fin 200) = []) \<and>
   \<not> (\<not> (\<exists>p \<in> set colonPairs. asset p = ''US:DT'' \<and> quote p = ''IRT'') \<longrightarrow>
       findTriangles Fin colonPairs ''US:DT'' (Fin 0) = [] \<and>
       findCrossPairs Fin colonPairs ''US:DT'' (Fin 0) (Fin 200) = [])"
proof -
  have "\<not> (\<exists>p \<in> set twoAssets. asset p = ''USDT'' \<and> quote p = ''IRT'')"
    by (simp add: twoAssets_def mkPair_def)
  moreover have "length (findCrossPairs Fin twoAssets ''USDT'' (Fin 0) (Fin 200)) = 2"
    by code_simp
  moreover have "\<not> (\<exists>p \<in> set colonPairs. asset p = ''US:DT'' \<and> quote p = ''IRT'')"
    by (simp add: colonPairs_def mkPair_def)
  moreover have "length (findTriangles Fin colonPairs ''US:DT'' (Fin 0)) = 2"
    by code_simp
  ultimately show ?thesis by auto
qed

subsection \<open>The symbols the normalizer recognises\<close>

lemma endsWith_iff: "endsWith s t \<longleftrightarrow> (\<exists>a. s = a @ t)"
proof
  assume "endsWith s t"
  then have "s = take (length s - length t) s @ t"
    unfolding endsWith_def by (metis append_take_drop_id)
  then show "\<exists>a. s = a @ t" ..
next
  assume "\<exists>a. s = a @ t"
  then show "endsWith s t" by (auto simp: endsWith_def)
qed

lemma dropLast_USDT: "dropLast 4 (a @ ''USDT'') = a"
  by (simp add: dropLast_def)

lemma dropLast_IRT: "dropLast 3 (a @ ''IRT'') = a"
  by (simp add: dropLast_def)

lemma not_both_suffixes: "a @ ''USDT'' \<noteq> b @ ''IRT''"
proof
  assume "a @ ''USDT'' = b @ ''IRT''"
  then have "rev (a @ ''USDT'') = rev (b @ ''IRT'')" by simp
  then show False by simp
qed

lemma parseSymbol_Some:
  "parseSymbol s = Some (a, q) \<longleftrightarrow>
     a \<noteq> [] \<and> ((q = ''USDT'' \<and> s = a @ ''USDT'') \<or> (q = ''IRT'' \<and> s = a @ ''IRT''))"
proof
  assume ps: "parseSymbol s = Some (a, q)"
  show "a \<noteq> [] \<and> ((q = ''USDT'' \<and> s = a @ ''USDT'') \<or> (q = ''IRT'' \<and> s = a @ ''IRT''))"
  proof (cases "length s > 4 \<and> endsWith s ''USDT''")
    case True
    then obtain b where b: "s = b @ ''USDT''" by (auto simp: endsWith_iff)
    with True ps have "a = b" "q = ''USDT''"
      by (auto simp: parseSymbol_def dropLast_USDT)
    with b True show ?thesis by auto
  next
    case False
    with ps have l: "length s > 3" and e: "endsWith s ''IRT''"
      by (auto simp: parseSymbol_def split: if_splits)
    then obtain b where b: "s = b @ ''IRT''" by (auto simp: endsWith_iff)
    with False l e ps have "a = b" "q = ''IRT''"
      by (auto simp: parseSymbol_def dropLast_IRT split: if_splits)
    with b l show ?thesis by auto
  qed
next
  assume r: "a \<noteq> [] \<and> ((q = ''USDT'' \<and> s = a @ ''USDT'') \<or> (q = ''IRT'' \<and> s = a @ ''IRT''))"
  then consider "q = ''USDT''" "s = a @ ''USDT''" | "q = ''IRT''" "s = a @ ''IRT''" by blast
  then show "parseSymbol s = Some (a, q)"
  proof cases
    case 1
    with r have "length s > 4" "endsWith s ''USDT''"
      by (auto simp: endsWith_iff)
    with 1 show ?thesis
      by (simp add: parseSymbol_def dropLast_USDT)
  next
    case 2
    with r have "length s > 3" "endsWith s ''IRT''"
      by (auto simp: endsWith_iff)
    moreover from 2 have "\<not> endsWith s ''USDT''"
      using not_both_suffixes by (metis endsWith_iff)
    ultimately show ?thesis using 2
      by (simp add: parseSymbol_def dropLast_IRT)
  qed
qed

lemma parseEntry_Some:
  assumes "parseEntry toNumber (key, v) = Some p"
  obtains m b bs k ks a q where "v = Object m" and "key \<noteq> ''status''"
    and "parseSymbol key = Some (a, q)"
    and "bids m = Some (b # bs)" and "asks m = Some (k # ks)"
    and "num_gt (cell toNumber b 0) (Fin 0)" and "num_gt (cell toNumber k 0) (Fin 0)"
    and "isFinite (cell toNumber b 0)" and "isFinite (cell toNumber k 0)"
    and "p = \<lparr>symbol = key, asset = a, quote = q,
              bestBid = cell toNumber b 0, bestBidQty = clampQty (cell toNumber b 1),
              bestAsk = cell toNumber k 0, bestAskQty = clampQty (cell toNumber k 1)\<rparr>"
proof (cases v)
  case (Object m)
  with assms that show thesis
    by (auto simp: Let_def split: if_splits option.splits list.splits prod.splits)
qed (use assms in auto)

lemma in_parseAllPairs:
  "p \<in> set (parseAllPairs toNumber data) \<longleftrightarrow>
     (\<exists>e \<in> set data. parseEntry toNumber e = Some p)"
  by (induction data) (auto split: option.splits)

text \<open>
  C5, as amended. The normalizer derives (asset, quote) by two fixed suffixes:
  \<open>parseSymbol\<close> answers (asset, quote) exactly when the asset is not empty and the
  symbol is the asset followed by \<open>USDT\<close> (the quote is then \<open>USDT\<close>) or by \<open>IRT\<close>
  (the quote is then \<open>IRT\<close>). The ticker \<open>USDT\<close> is fixed in the function, which has no
  parameter for the bridge currency. Every pair that \<open>parseAllPairs\<close> returns stands
  for an entry of the snapshot under its symbol and has the asset and the quote that
  \<open>parseSymbol\<close> derives from the symbol; an entry whose symbol \<open>parseSymbol\<close> rejects
  gives no pair.
\<close>

theorem fixed_suffix_rule:
  "(parseSymbol s = Some (a, q) \<longleftrightarrow>
      a \<noteq> [] \<and> ((q = ''USDT'' \<and> s = a @ ''USDT'') \<or> (q = ''IRT'' \<and> s = a @ ''IRT''))) \<and>
   (\<forall>p \<in> set (parseAllPairs toNumber data).
      symbol p \<in> fst ` set data \<and> parseSymbol (symbol p) = Some (asset p, quote p)) \<and>
   (\<forall>v. parseSymbol key = None \<longrightarrow> parseEntry toNumber (key, v) = None)"
proof (intro conjI ballI allI impI)
  show "parseSymbol s = Some (a, q) \<longleftrightarrow>
      a \<noteq> [] \<and> ((q = ''USDT'' \<and> s = a @ ''USDT'') \<or> (q = ''IRT'' \<and> s = a @ ''IRT''))"
    by (rule parseSymbol_Some)
next
  fix p assume "p \<in> set (parseAllPairs toNumber data)"
  then obtain key v where e: "(key, v) \<in> set data" and p: "parseEntry toNumber (key, v) = Some p"
    by (auto simp: in_parseAllPairs)
  from p have "symbol p = key \<and> parseSymbol key = Some (asset p, quote p)"
    by (elim parseEntry_Some) simp
  with e show "symbol p \<in> fst ` set data" and "parseSymbol (symbol p) = Some (asset p, quote p)"
    by force+
next
  fix v assume "parseSymbol key = None"
  then show "parseEntry toNumber (key, v) = None"
    by (cases v) auto
qed

lemma usdcSnapshot_pairs:
  "parseAllPairs exampleNumber usdcSnapshot =
     [\<lparr>symbol = ''XIRT'', asset = ''X'', quote = ''IRT'', bestBid = Fin 1, bestBidQty = Fin 1,
       bestAsk = Fin 1, bestAskQty = Fin 1\<rparr>]"
  by code_simp

theorem fixed_suffix_rule_witness:
  "parseSymbol ''XIRT'' = Some (''X'', ''IRT'') \<and>
   parseSymbol ''XUSDC'' = None \<and>
   parseEntry exampleNumber (''XUSDC'', unitBook) = None \<and>
   (\<exists>p. p \<in> set (parseAllPairs exampleNumber usdcSnapshot) \<and>
        symbol p = ''XIRT'' \<and> asset p = ''X'' \<and> quote p = ''IRT'')"
proof -
  note r = fixed_suffix_rule [of "''XIRT''" "''X''" "''IRT''" exampleNumber usdcSnapshot "''XUSDC''"]
  have n: "parseSymbol ''XUSDC'' = None" by code_simp
  from r have "parseSymbol ''XIRT'' = Some (''X'', ''IRT'')" by simp
  moreover from r n have "parseEntry exampleNumber (''XUSDC'', unitBook) = None" by blast
  moreover have "\<exists>p. p \<in> set (parseAllPairs exampleNumber usdcSnapshot) \<and>
        symbol p = ''XIRT'' \<and> asset p = ''X'' \<and> quote p = ''IRT''"
  proof -
    obtain p where p: "p \<in> set (parseAllPairs exampleNumber usdcSnapshot)" and s: "symbol p = ''XIRT''"
      by (simp add: usdcSnapshot_pairs)
    from r p have "parseSymbol (symbol p) = Some (asset p, quote p)" by blast
    with s r have "asset p = ''X'' \<and> quote p = ''IRT''" by simp
    with p s show ?thesis by blast
  qed
  ultimately show ?thesis using n by blast
qed

text \<open>
  C5 as stated fails: with the bridge ticker \<open>USDC\<close> the rule of the claim reads the
  symbol \<open>XUSDC\<close> as asset \<open>X\<close> quoted in \<open>USDC\<close>, and \<open>parseSymbol\<close> rejects it; the
  normalizer drops the entry.
\<close>

theorem bridge_suffix_counterexample:
  "suffixRule ''USDC'' ''XUSDC'' = Some (''X'', ''USDC'') \<and>
   parseSymbol ''XUSDC'' = None \<and>
   \<not> list_ex (\<lambda>p. symbol p = ''XUSDC'') (parseAllPairs exampleNumber usdcSnapshot)"
  by code_simp

subsection \<open>A bridge currency the normalizer does not know\<close>

lemma parsed_quote:
  assumes "p \<in> set (parseAllPairs toNumber data)"
  shows "quote p = ''USDT'' \<or> quote p = ''IRT''"
proof -
  from assms obtain e where "parseEntry toNumber e = Some p"
    by (auto simp: in_parseAllPairs)
  then have "parseSymbol (symbol p) = Some (asset p, quote p)"
    by (cases e) (auto elim!: parseEntry_Some)
  then show ?thesis by (auto simp: parseSymbol_Some)
qed

lemma unknown_bridge_no_entries:
  assumes q: "\<forall>p \<in> set pairs. quote p = ''USDT'' \<or> quote p = ''IRT''"
    and B: "B \<noteq> ''USDT''" "B \<noteq> ''IRT''" "noColon B"
  shows "buildAssetEntries pairs B = []"
  unfolding buildAssetEntries_def
proof (rule entriesOf_Nil, intro ballI impI)
  fix p assume "p \<in> set pairs"
  show "indexPairs pairs (pairKey (asset p) B) = None"
  proof (subst indexPairs_None, intro ballI notI)
    fix r assume r: "r \<in> set pairs" and k: "pairKey (asset r) (quote r) = pairKey (asset p) B"
    from q r have "noColon (quote r)" by (auto simp: noColon_def)
    from pairKey_inject [OF k this B(3)] have "quote r = B" by simp
    with q r B show False by auto
  qed
qed

lemma no_entries_no_triangles:
  "buildAssetEntries pairs B = [] \<Longrightarrow> findTriangles rnd pairs B fee = []"
  by (simp add: findTriangles_def split: option.splits)

lemma no_entries_no_crosses:
  "buildAssetEntries pairs B = [] \<Longrightarrow> findCrossPairs rnd pairs B fee m = []"
  by (simp add: findCrossPairs_def crossResults_def sortBy_def sliceTo_Nil)

text \<open>
  C10, as amended. Every pair that \<open>parseAllPairs\<close> produces is quoted in \<open>USDT\<close> or in
  \<open>IRT\<close>; and for a bridge currency that is neither of the two and whose ticker holds
  no \<open>:\<close>, \<open>findTriangles\<close> and \<open>findCrossPairs\<close> return the empty list on the
  normalized pairs.
\<close>

theorem unknown_bridge_empty:
  "(\<forall>p \<in> set (parseAllPairs toNumber data). quote p = ''USDT'' \<or> quote p = ''IRT'') \<and>
   (B \<noteq> ''USDT'' \<and> B \<noteq> ''IRT'' \<and> noColon B \<longrightarrow>
      findTriangles rnd (parseAllPairs toNumber data) B fee = [] \<and>
      findCrossPairs rnd (parseAllPairs toNumber data) B fee maxResults = [])"
proof (intro conjI ballI impI)
  fix p assume "p \<in> set (parseAllPairs toNumber data)"
  then show "quote p = ''USDT'' \<or> quote p = ''IRT''" by (rule parsed_quote)
next
  assume B: "B \<noteq> ''USDT'' \<and> B \<noteq> ''IRT'' \<and> noColon B"
  have "\<forall>p \<in> set (parseAllPairs toNumber data). quote p = ''USDT'' \<or> quote p = ''IRT''"
    using parsed_quote by blast
  with B have e: "buildAssetEntries (parseAllPairs toNumber data) B = []"
    using unknown_bridge_no_entries by blast
  show "findTriangles rnd (parseAllPairs toNumber data) B fee = []"
    using e by (rule no_entries_no_triangles)
  show "findCrossPairs rnd (parseAllPairs toNumber data) B fee maxResults = []"
    using e by (rule no_entries_no_crosses)
qed

theorem unknown_bridge_empty_witness:
  "(\<exists>p. p \<in> set (parseAllPairs exampleNumber usdcSnapshot) \<and> quote p = ''IRT'') \<and>
   noColon ''USDC'' \<and>
   findTriangles Fin (parseAllPairs exampleNumber usdcSnapshot) ''USDC'' (Fin 0) = [] \<and>
   findCrossPairs Fin (parseAllPairs exampleNumber usdcSnapshot) ''USDC'' (Fin 0) (Fin 200) = []"
proof -
  note r = unknown_bridge_empty [of exampleNumber usdcSnapshot "''USDC''" Fin "Fin 0" "Fin 200"]
  have c: "noColon ''USDC''" by (simp add: noColon_def)
  obtain p where p: "p \<in> set (parseAllPairs exampleNumber usdcSnapshot)"
    by (simp add: usdcSnapshot_pairs)
  have "quote p \<noteq> ''USDT''" using p by (simp add: usdcSnapshot_pairs)
  with r p have "quote p = ''IRT''" by blast
  with p have "\<exists>p. p \<in> set (parseAllPairs exampleNumber usdcSnapshot) \<and> quote p = ''IRT''"
    by blast
  moreover from r c have
    "findTriangles Fin (parseAllPairs exampleNumber usdcSnapshot) ''USDC'' (Fin 0) = [] \<and>
     findCrossPairs Fin (parseAllPairs exampleNumber usdcSnapshot) ''USDC'' (Fin 0) (Fin 200) = []"
    by simp
  ultimately show ?thesis using c by blast
qed

text \<open>
  C10 as stated fails for a bridge ticker that holds the separator of the index keys.
  On the three symbols \<open>Z:USDTIRT\<close>, \<open>AIRT\<close> and \<open>A:ZUSDT\<close> the normalizer produces the
  pairs (\<open>Z:USDT\<close>, \<open>IRT\<close>), (\<open>A\<close>, \<open>IRT\<close>) and (\<open>A:Z\<close>, \<open>USDT\<close>). For the bridge \<open>Z:USDT\<close>
  the key \<open>A:Z:USDT\<close> of asset \<open>A\<close> is the key of the third pair, so both triangles
  of \<open>A\<close> are returned.
\<close>

theorem unknown_bridge_counterexample:
  "''Z:USDT'' \<noteq> ''USDT'' \<and> ''Z:USDT'' \<noteq> ''IRT'' \<and>
   map (\<lambda>p. (asset p, quote p)) (parseAllPairs exampleNumber colonSnapshot) =
     [(''Z:USDT'', ''IRT''), (''A'', ''IRT''), (''A:Z'', ''USDT'')] \<and>
   map (\<lambda>x. (assets x, direction x))
     (findTriangles Fin (parseAllPairs exampleNumber colonSnapshot) ''Z:USDT'' (Fin 0)) =
     [([''A''], cw), ([''A''], ccw)]"
  by code_simp

subsection \<open>The pairs the normalizer returns\<close>

lemma clampQty_valid: "isFinite (clampQty q) \<and> num_le (Fin 0) (clampQty q)"
  by (cases q) (auto simp: clampQty_def num_le_def num_gt_def)

lemma parseEntry_valid:
  assumes "parseEntry toNumber e = Some p"
  shows "validPair p"
proof -
  obtain key v where e: "e = (key, v)" by (cases e)
  from assms [unfolded e] show ?thesis
    by (elim parseEntry_Some) (simp add: validPair_def clampQty_valid)
qed

lemma parseEntry_missing:
  "bids m = None \<or> bids m = Some [] \<or> asks m = None \<or> asks m = Some [] \<Longrightarrow>
   parseEntry toNumber (key, Object m) = None"
  by (auto split: option.splits list.splits prod.splits)

lemma parseEntry_bad_price:
  assumes "bids m = Some (b # bs)" and "asks m = Some (k # ks)"
    and "\<not> num_gt (cell toNumber b 0) (Fin 0) \<or> \<not> isFinite (cell toNumber b 0) \<or>
         \<not> num_gt (cell toNumber k 0) (Fin 0) \<or> \<not> isFinite (cell toNumber k 0)"
  shows "parseEntry toNumber (key, Object m) = None"
  using assms by (auto simp: Let_def split: option.splits prod.splits)

text \<open>
  C8. Every pair that \<open>parseAllPairs\<close> returns is the parse of an entry of the
  snapshot and satisfies the invariant: its best bid and best ask are finite and
  greater than zero, its quantities are finite and not negative. The prices are the
  numbers of the first bid and the first ask, and each quantity is the number of the
  source when that is finite and greater than zero, and zero otherwise. An entry whose
  bids or asks are missing or empty, or whose best bid or best ask is not greater than
  zero or not finite, gives no pair; neither does an entry that is not an object.
\<close>

theorem parsed_pairs_valid:
  "(\<forall>p \<in> set (parseAllPairs toNumber data).
      validPair p \<and> (\<exists>e \<in> set data. parseEntry toNumber e = Some p)) \<and>
   (parseEntry toNumber (key, Object m) = Some p \<longrightarrow>
      (\<exists>b bs k ks. bids m = Some (b # bs) \<and> asks m = Some (k # ks) \<and>
         bestBid p = cell toNumber b 0 \<and> bestAsk p = cell toNumber k 0 \<and>
         bestBidQty p =
           (if isFinite (cell toNumber b 1) \<and> num_gt (cell toNumber b 1) (Fin 0)
            then cell toNumber b 1 else Fin 0) \<and>
         bestAskQty p =
           (if isFinite (cell toNumber k 1) \<and> num_gt (cell toNumber k 1) (Fin 0)
            then cell toNumber k 1 else Fin 0))) \<and>
   (bids m = None \<or> bids m = Some [] \<or> asks m = None \<or> asks m = Some [] \<longrightarrow>
      parseEntry toNumber (key, Object m) = None) \<and>
   (bids m = Some (b # bs) \<and> asks m = Some (k # ks) \<and>
      (\<not> num_gt (cell toNumber b 0) (Fin 0) \<or> \<not> isFinite (cell toNumber b 0) \<or>
       \<not> num_gt (cell toNumber k 0) (Fin 0) \<or> \<not> isFinite (cell toNumber k 0)) \<longrightarrow>
      parseEntry toNumber (key, Object m) = None) \<and>
   parseEntry toNumber (key, Nullish) = None \<and>
   parseEntry toNumber (key, NonObject) = None"
proof (intro conjI ballI impI)
  fix p assume "p \<in> set (parseAllPairs toNumber data)"
  then show e: "\<exists>e \<in> set data. parseEntry toNumber e = Some p"
    by (simp add: in_parseAllPairs)
  then show "validPair p" using parseEntry_valid by blast
next
  assume "parseEntry toNumber (key, Object m) = Some p"
  then show "\<exists>b bs k ks. bids m = Some (b # bs) \<and> asks m = Some (k # ks) \<and>
         bestBid p = cell toNumber b 0 \<and> bestAsk p = cell toNumber k 0 \<and>
         bestBidQty p =
           (if isFinite (cell toNumber b 1) \<and> num_gt (cell toNumber b 1) (Fin 0)
            then cell toNumber b 1 else Fin 0) \<and>
         bestAskQty p =
           (if isFinite (cell toNumber k 1) \<and> num_gt (cell toNumber k 1) (Fin 0)
            then cell toNumber k 1 else Fin 0)"
    by (elim parseEntry_Some) (simp add: clampQty_def)
next
  assume "bids m = None \<or> bids m = Some [] \<or> asks m = None \<or> asks m = Some []"
  then show "parseEntry toNumber (key, Object m) = None" by (rule parseEntry_missing)
next
  assume "bids m = Some (b # bs) \<and> asks m = Some (k # ks) \<and>
      (\<not> num_gt (cell toNumber b 0) (Fin 0) \<or> \<not> isFinite (cell toNumber b 0) \<or>
       \<not> num_gt (cell toNumber k 0) (Fin 0) \<or> \<not> isFinite (cell toNumber k 0))"
  then show "parseEntry toNumber (key, Object m) = None"
    using parseEntry_bad_price by blast
qed simp_all

lemma messySnapshot_pairs:
  "parseAllPairs exampleNumber messySnapshot =
     [\<lparr>symbol = ''AIRT'', asset = ''A'', quote = ''IRT'', bestBid = Fin 2,
       bestBidQty = Fin 0, bestAsk = Fin 2, bestAskQty = Fin 0\<rparr>,
      \<lparr>symbol = ''GIRT'', asset = ''G'', quote = ''IRT'', bestBid = Fin 1,
       bestBidQty = Fin 0, bestAsk = Fin 2, bestAskQty = Fin 2\<rparr>]"
  by code_simp

theorem parsed_pairs_valid_witness:
  "(\<exists>p. p \<in> set (parseAllPairs exampleNumber messySnapshot) \<and> symbol p = ''AIRT'' \<and>
        validPair p \<and> bestBidQty p = Fin 0 \<and> bestAskQty p = Fin 0) \<and>
   parseEntry exampleNumber (''BIRT'', Object \<lparr>bids = None, asks = Some [[''1'', ''1'']]\<rparr>) = None \<and>
   parseEntry exampleNumber
     (''DIRT'', Object \<lparr>bids = Some [[''0'', ''1'']], asks = Some [[''1'', ''1'']]\<rparr>) = None"
proof -
  let ?A = "\<lparr>symbol = ''AIRT'', asset = ''A'', quote = ''IRT'', bestBid = Fin 2,
       bestBidQty = Fin 0, bestAsk = Fin 2, bestAskQty = Fin 0\<rparr>"
  have A: "?A \<in> set (parseAllPairs exampleNumber messySnapshot)"
    by (simp add: messySnapshot_pairs)
  have "validPair ?A"
    using parsed_pairs_valid [of exampleNumber messySnapshot] A by blast
  with A have 1: "\<exists>p. p \<in> set (parseAllPairs exampleNumber messySnapshot) \<and> symbol p = ''AIRT'' \<and>
        validPair p \<and> bestBidQty p = Fin 0 \<and> bestAskQty p = Fin 0"
    by (intro exI [of _ ?A]) simp
  have 2: "parseEntry exampleNumber
      (''BIRT'', Object \<lparr>bids = None, asks = Some [[''1'', ''1'']]\<rparr>) = None"
    using parsed_pairs_valid [of exampleNumber messySnapshot "''BIRT''"
        "\<lparr>bids = None, asks = Some [[''1'', ''1'']]\<rparr>"]
    by simp
  have "\<not> num_gt (cell exampleNumber [''0'', ''1''] 0) (Fin 0)"
    by (simp add: cell_def exampleNumber_def num_gt_def)
  then have 3: "parseEntry exampleNumber
      (''DIRT'', Object \<lparr>bids = Some [[''0'', ''1'']], asks = Some [[''1'', ''1'']]\<rparr>) = None"
    using parsed_pairs_valid [of exampleNumber messySnapshot "''DIRT''"
        "\<lparr>bids = Some [[''0'', ''1'']], asks = Some [[''1'', ''1'']]\<rparr>" _ "[''0'', ''1'']" "[]"
        "[''1'', ''1'']" "[]"]
    by simp
  from 1 2 3 show ?thesis by blast
qed

subsection \<open>The order of the numbers\<close>

lemma num_lt_irrefl: "\<not> num_lt a a"
  by (cases a) simp_all

lemma num_lt_trans: "num_lt a b \<Longrightarrow> num_lt b c \<Longrightarrow> num_lt a c"
  by (cases a; cases b; cases c) simp_all

lemma num_lt_total: "a \<noteq> NaN \<Longrightarrow> b \<noteq> NaN \<Longrightarrow> num_lt a b \<or> a = b \<or> num_lt b a"
  by (cases a; cases b) auto

lemma num_lt_asym: "num_lt a b \<Longrightarrow> \<not> num_lt b a"
  by (cases a; cases b) simp_all

lemma num_lt_not_NaN: "num_lt a b \<Longrightarrow> a \<noteq> NaN \<and> b \<noteq> NaN"
  by (cases a; cases b) simp_all

lemma num_le_refl: "a \<noteq> NaN \<Longrightarrow> num_le a a"
  by (simp add: num_le_def num_lt_irrefl)

lemma num_le_neq: "num_le a b \<Longrightarrow> a \<noteq> b \<Longrightarrow> num_lt a b"
  using num_lt_total by (auto simp: num_le_def)

subsection \<open>The least argument\<close>

lemma min2_not_NaN: "min2 a b \<noteq> NaN \<Longrightarrow> a \<noteq> NaN \<and> b \<noteq> NaN"
  by (auto simp: min2_def split: if_splits)

lemma min2_le:
  assumes "min2 a b \<noteq> NaN"
  shows "num_le (min2 a b) a \<and> num_le (min2 a b) b"
proof -
  from assms have n: "a \<noteq> NaN" "b \<noteq> NaN" by (rule min2_not_NaN [THEN conjunct1], rule min2_not_NaN [THEN conjunct2])
  show ?thesis
  proof (cases "num_lt b a")
    case True
    then have "min2 a b = b" using n by (simp add: min2_def)
    moreover have "\<not> num_lt a b" using True by (rule num_lt_asym)
    ultimately show ?thesis using n by (simp add: num_le_def num_lt_irrefl)
  next
    case False
    then have "min2 a b = a" using n by (simp add: min2_def)
    then show ?thesis using n False by (simp add: num_le_def num_lt_irrefl)
  qed
qed

lemma num_le_trans: "num_le a b \<Longrightarrow> num_le b c \<Longrightarrow> num_le a c"
  by (cases a; cases b; cases c) (simp_all add: num_le_def)

lemma Math_min_le:
  "Math_min caps \<noteq> NaN \<Longrightarrow> c \<in> set caps \<Longrightarrow> c \<noteq> NaN \<and> num_le (Math_min caps) c"
proof (induction caps)
  case Nil
  then show ?case by simp
next
  case (Cons a caps)
  from Cons.prems(1) have n: "a \<noteq> NaN" "Math_min caps \<noteq> NaN"
    using min2_not_NaN [of a "Math_min caps"] by simp_all
  from Cons.prems(1) have le: "num_le (Math_min (a # caps)) a"
      "num_le (Math_min (a # caps)) (Math_min caps)"
    using min2_le [of a "Math_min caps"] by simp_all
  show ?case
  proof (cases "c = a")
    case True
    with n le show ?thesis by simp
  next
    case False
    with Cons.prems(2) have "c \<in> set caps" by simp
    from Cons.IH [OF n(2) this] le(2) show ?thesis
      using num_le_trans by blast
  qed
qed

lemma min2_either: "min2 a b \<noteq> NaN \<Longrightarrow> min2 a b = a \<or> min2 a b = b"
  by (simp add: min2_def split: if_splits)

lemma Math_min_in: "caps \<noteq> [] \<Longrightarrow> Math_min caps \<noteq> NaN \<Longrightarrow> Math_min caps \<in> set caps"
proof (induction caps)
  case Nil
  then show ?case by simp
next
  case (Cons a caps)
  from Cons.prems(2) have e: "Math_min (a # caps) = a \<or> Math_min (a # caps) = Math_min caps"
    using min2_either [of a "Math_min caps"] by simp
  show ?case
  proof (cases "caps = []")
    case True
    from Cons.prems(2) have "a \<noteq> NaN" using min2_not_NaN [of a "Math_min caps"] by simp
    then have "min2 a PInf = a" by (cases a) (simp_all add: min2_def)
    with True show ?thesis by simp
  next
    case False
    from Cons.prems(2) have "Math_min caps \<noteq> NaN"
      using min2_not_NaN [of a "Math_min caps"] by simp
    from Cons.IH [OF False this] e show ?thesis by auto
  qed
qed

lemma firstMinimum3:
  assumes "Math_min [l1, l2, l3] \<noteq> NaN"
  shows "firstMinimum [l1, l2, l3]
           (if strict_eq (Math_min [l1, l2, l3]) l1 then 0
            else if strict_eq (Math_min [l1, l2, l3]) l2 then 1 else 2) \<and>
         [l1, l2, l3] ! (if strict_eq (Math_min [l1, l2, l3]) l1 then 0
            else if strict_eq (Math_min [l1, l2, l3]) l2 then 1 else 2) = Math_min [l1, l2, l3]"
proof -
  let ?m = "Math_min [l1, l2, l3]"
  have le: "num_le ?m l1" "num_le ?m l2" "num_le ?m l3"
    and nn: "l1 \<noteq> NaN" "l2 \<noteq> NaN" "l3 \<noteq> NaN"
    using Math_min_le [OF assms] by auto
  have "?m \<in> set [l1, l2, l3]" using Math_min_in [OF _ assms] by blast
  then have mem: "?m = l1 \<or> ?m = l2 \<or> ?m = l3" by auto
  show ?thesis
  proof (cases "?m = l1")
    case True
    with le nn assms show ?thesis by (simp add: firstMinimum_def strict_eq_def)
  next
    case n1: False
    with le have lt1: "num_lt ?m l1" using num_le_neq by blast
    show ?thesis
    proof (cases "?m = l2")
      case True
      with n1 lt1 le nn assms show ?thesis by (simp add: firstMinimum_def strict_eq_def)
    next
      case n2: False
      with le have lt2: "num_lt ?m l2" using num_le_neq by blast
      from n1 n2 mem have "?m = l3" by blast
      with n1 n2 lt1 lt2 le nn assms show ?thesis
        by (simp add: firstMinimum_def strict_eq_def)
    qed
  qed
qed

lemma firstMinimum4:
  assumes "Math_min [l1, l2, l3, l4] \<noteq> NaN"
  shows "firstMinimum [l1, l2, l3, l4]
           (if strict_eq (Math_min [l1, l2, l3, l4]) l1 then 0
            else if strict_eq (Math_min [l1, l2, l3, l4]) l2 then 1
            else if strict_eq (Math_min [l1, l2, l3, l4]) l3 then 2 else 3) \<and>
         [l1, l2, l3, l4] ! (if strict_eq (Math_min [l1, l2, l3, l4]) l1 then 0
            else if strict_eq (Math_min [l1, l2, l3, l4]) l2 then 1
            else if strict_eq (Math_min [l1, l2, l3, l4]) l3 then 2 else 3) =
           Math_min [l1, l2, l3, l4]"
proof -
  let ?m = "Math_min [l1, l2, l3, l4]"
  have le: "num_le ?m l1" "num_le ?m l2" "num_le ?m l3" "num_le ?m l4"
    and nn: "l1 \<noteq> NaN" "l2 \<noteq> NaN" "l3 \<noteq> NaN" "l4 \<noteq> NaN"
    using Math_min_le [OF assms] by auto
  have "?m \<in> set [l1, l2, l3, l4]" using Math_min_in [OF _ assms] by blast
  then have mem: "?m = l1 \<or> ?m = l2 \<or> ?m = l3 \<or> ?m = l4" by auto
  show ?thesis
  proof (cases "?m = l1")
    case True
    with le nn assms show ?thesis by (simp add: firstMinimum_def strict_eq_def)
  next
    case n1: False
    with le have lt1: "num_lt ?m l1" using num_le_neq by blast
    show ?thesis
    proof (cases "?m = l2")
      case True
      with n1 lt1 le nn assms show ?thesis by (simp add: firstMinimum_def strict_eq_def)
    next
      case n2: False
      with le have lt2: "num_lt ?m l2" using num_le_neq by blast
      show ?thesis
      proof (cases "?m = l3")
        case True
        with n1 n2 lt1 lt2 le nn assms show ?thesis
          by (simp add: firstMinimum_def strict_eq_def)
      next
        case n3: False
        with le have lt3: "num_lt ?m l3" using num_le_neq by blast
        from n1 n2 n3 mem have "?m = l4" by blast
        with n1 n2 n3 lt1 lt2 lt3 le nn assms show ?thesis
          by (simp add: firstMinimum_def strict_eq_def)
      qed
    qed
  qed
qed

subsection \<open>The bottleneck leg\<close>

lemma cw_bottleneck:
  assumes "maxVolumeIRT (cwCandidate rnd B T bridge e) \<noteq> NaN"
  shows "firstMinimum (capacities rnd (cwCandidate rnd B T bridge e))
           (bottleneckLeg (cwCandidate rnd B T bridge e)) \<and>
         maxVolumeIRT (cwCandidate rnd B T bridge e) =
           notional rnd (cwCandidate rnd B T bridge e)
             (capacities rnd (cwCandidate rnd B T bridge e) !
                bottleneckLeg (cwCandidate rnd B T bridge e))"
proof -
  define l1 where "l1 = bestAskQty (irt e)"
  define l2 where "l2 = bestBidQty (baseE e)"
  define l3 where "l3 = (if num_gt (bestBid (baseE e)) (Fin 0)
      then num_div rnd (bestBidQty bridge) (bestBid (baseE e)) else Fin 0)"
  define bn :: nat where "bn = (if strict_eq (Math_min [l1, l2, l3]) l1 then 0
      else if strict_eq (Math_min [l1, l2, l3]) l2 then 1 else 2)"
  have caps: "capacities rnd (cwCandidate rnd B T bridge e) = [l1, l2, l3]"
    by (simp add: capacities_def cwCandidate_def Let_def l1_def l2_def l3_def)
  have b: "bottleneckLeg (cwCandidate rnd B T bridge e) = bn"
    by (simp add: cwCandidate_def Let_def l1_def l2_def l3_def bn_def)
  have v: "maxVolumeIRT (cwCandidate rnd B T bridge e) =
      num_mul rnd (Math_min [l1, l2, l3]) (bestAsk (irt e))"
    by (simp add: cwCandidate_def Let_def l1_def l2_def l3_def)
  have n: "notional rnd (cwCandidate rnd B T bridge e) u = num_mul rnd u (bestAsk (irt e))" for u
    by (simp add: notional_def cwCandidate_def Let_def)
  from assms v have "Math_min [l1, l2, l3] \<noteq> NaN" by auto
  from firstMinimum3 [OF this] show ?thesis
    unfolding caps b v n bn_def by simp
qed

lemma ccw_bottleneck:
  assumes "maxVolumeIRT (ccwCandidate rnd B T bridge e) \<noteq> NaN"
  shows "firstMinimum (capacities rnd (ccwCandidate rnd B T bridge e))
           (bottleneckLeg (ccwCandidate rnd B T bridge e)) \<and>
         maxVolumeIRT (ccwCandidate rnd B T bridge e) =
           notional rnd (ccwCandidate rnd B T bridge e)
             (capacities rnd (ccwCandidate rnd B T bridge e) !
                bottleneckLeg (ccwCandidate rnd B T bridge e))"
proof -
  define l1 where "l1 = (if num_gt (bestAsk (baseE e)) (Fin 0)
      then num_div rnd (bestAskQty bridge) (bestAsk (baseE e)) else Fin 0)"
  define l2 where "l2 = bestAskQty (baseE e)"
  define l3 where "l3 = bestBidQty (irt e)"
  define bn :: nat where "bn = (if strict_eq (Math_min [l1, l2, l3]) l1 then 0
      else if strict_eq (Math_min [l1, l2, l3]) l2 then 1 else 2)"
  have caps: "capacities rnd (ccwCandidate rnd B T bridge e) = [l1, l2, l3]"
    by (simp add: capacities_def ccwCandidate_def Let_def l1_def l2_def l3_def)
  have b: "bottleneckLeg (ccwCandidate rnd B T bridge e) = bn"
    by (simp add: ccwCandidate_def Let_def l1_def l2_def l3_def bn_def)
  have v: "maxVolumeIRT (ccwCandidate rnd B T bridge e) =
      num_mul rnd (num_mul rnd (Math_min [l1, l2, l3]) (bestAsk (baseE e))) (bestAsk bridge)"
    by (simp add: ccwCandidate_def Let_def l1_def l2_def l3_def)
  have n: "notional rnd (ccwCandidate rnd B T bridge e) u =
      num_mul rnd (num_mul rnd u (bestAsk (baseE e))) (bestAsk bridge)" for u
    by (simp add: notional_def ccwCandidate_def Let_def)
  from assms v have "Math_min [l1, l2, l3] \<noteq> NaN" by auto
  from firstMinimum3 [OF this] show ?thesis
    unfolding caps b v n bn_def by simp
qed

lemma cross_bottleneck:
  assumes "maxVolumeIRT (crossCandidate rnd B T s b) \<noteq> NaN"
  shows "firstMinimum (capacities rnd (crossCandidate rnd B T s b))
           (bottleneckLeg (crossCandidate rnd B T s b)) \<and>
         maxVolumeIRT (crossCandidate rnd B T s b) =
           notional rnd (crossCandidate rnd B T s b)
             (capacities rnd (crossCandidate rnd B T s b) !
                bottleneckLeg (crossCandidate rnd B T s b))"
proof -
  define l1 where "l1 = bestAskQty (irt s)"
  define l2 where "l2 = bestBidQty (baseE s)"
  define l3 where "l3 = (if num_gt (bestBid (baseE s)) (Fin 0)
      then num_div rnd (num_mul rnd (bestAskQty (baseE b)) (bestAsk (baseE b))) (bestBid (baseE s))
      else Fin 0)"
  define l4 where "l4 = (if num_gt (bestBid (baseE s)) (Fin 0)
      then num_div rnd (num_mul rnd (bestBidQty (irt b)) (bestAsk (baseE b))) (bestBid (baseE s))
      else Fin 0)"
  define bn :: nat where "bn = (if strict_eq (Math_min [l1, l2, l3, l4]) l1 then 0
      else if strict_eq (Math_min [l1, l2, l3, l4]) l2 then 1
      else if strict_eq (Math_min [l1, l2, l3, l4]) l3 then 2 else 3)"
  have caps: "capacities rnd (crossCandidate rnd B T s b) = [l1, l2, l3, l4]"
    by (simp add: capacities_def crossCandidate_def Let_def l1_def l2_def l3_def l4_def)
  have bl: "bottleneckLeg (crossCandidate rnd B T s b) = bn"
    by (simp add: crossCandidate_def Let_def l1_def l2_def l3_def l4_def bn_def)
  have v: "maxVolumeIRT (crossCandidate rnd B T s b) =
      num_mul rnd (Math_min [l1, l2, l3, l4]) (bestAsk (irt s))"
    by (simp add: crossCandidate_def Let_def l1_def l2_def l3_def l4_def)
  have n: "notional rnd (crossCandidate rnd B T s b) u = num_mul rnd u (bestAsk (irt s))" for u
    by (simp add: notional_def crossCandidate_def Let_def)
  from assms v have "Math_min [l1, l2, l3, l4] \<noteq> NaN" by auto
  from firstMinimum4 [OF this] show ?thesis
    unfolding caps bl v n bn_def by simp
qed

lemma num_gt_not_NaN: "num_gt a b \<Longrightarrow> a \<noteq> NaN"
  by (auto simp: num_gt_def dest: num_lt_not_NaN)

lemma triangle_bottleneck:
  assumes "x \<in> set (findTriangles rnd pairs B fee)"
  shows "firstMinimum (capacities rnd x) (bottleneckLeg x) \<and>
         maxVolumeIRT x = notional rnd x (capacities rnd x ! bottleneckLeg x)"
  using assms
proof (rule in_findTriangles)
  fix bridge e
  assume "x \<in> set (pushIf (cwCandidate rnd B (num_mul rnd (Fin 3) fee) bridge e)) \<or>
          x \<in> set (pushIf (ccwCandidate rnd B (num_mul rnd (Fin 3) fee) bridge e))"
  then consider "x = cwCandidate rnd B (num_mul rnd (Fin 3) fee) bridge e" "num_gt (maxVolumeIRT x) (Fin 0)"
    | "x = ccwCandidate rnd B (num_mul rnd (Fin 3) fee) bridge e" "num_gt (maxVolumeIRT x) (Fin 0)"
    by (auto simp: pushIf_def split: if_splits)
  then show ?thesis
  proof cases
    case 1
    from 1(2) have "maxVolumeIRT x \<noteq> NaN" by (rule num_gt_not_NaN)
    with 1(1) show ?thesis using cw_bottleneck by blast
  next
    case 2
    from 2(2) have "maxVolumeIRT x \<noteq> NaN" by (rule num_gt_not_NaN)
    with 2(1) show ?thesis using ccw_bottleneck by blast
  qed
qed

lemma crossResults_bottleneck:
  assumes "x \<in> set (crossResults rnd pairs B fee)" and "maxVolumeIRT x \<noteq> NaN"
  shows "firstMinimum (capacities rnd x) (bottleneckLeg x) \<and>
         maxVolumeIRT x = notional rnd x (capacities rnd x ! bottleneckLeg x)"
  using assms(1)
proof (rule in_crossResults)
  fix s b assume "x \<in> set (crossStep rnd B (num_mul rnd (Fin 4) fee) s b)"
  then have "x = crossCandidate rnd B (num_mul rnd (Fin 4) fee) s b" by (rule in_crossStep)
  with assms(2) show ?thesis using cross_bottleneck by blast
qed

subsection \<open>Roundings and valid pairs\<close>

lemma soundRounding_Fin: "soundRounding Fin"
  by (simp add: soundRounding_def num_le_def)

lemma ieeeRounding_Fin: "ieeeRounding Fin"
  by (simp add: ieeeRounding_def soundRounding_Fin)

lemma validPair_elim:
  assumes "validPair p"
  obtains bid bq ask aq where "bestBid p = Fin bid" "0 < bid" "bestBidQty p = Fin bq" "0 \<le> bq"
    "bestAsk p = Fin ask" "0 < ask" "bestAskQty p = Fin aq" "0 \<le> aq"
proof -
  from assms obtain bid where 1: "bestBid p = Fin bid" "0 < bid"
    by (cases "bestBid p") (auto simp: validPair_def num_gt_def)
  from assms obtain ask where 2: "bestAsk p = Fin ask" "0 < ask"
    by (cases "bestAsk p") (auto simp: validPair_def num_gt_def)
  from assms obtain bq where 3: "bestBidQty p = Fin bq" "0 \<le> bq"
    by (cases "bestBidQty p") (auto simp: validPair_def num_le_def)
  from assms obtain aq where 4: "bestAskQty p = Fin aq" "0 \<le> aq"
    by (cases "bestAskQty p") (auto simp: validPair_def num_le_def)
  from 1 2 3 4 that show thesis by blast
qed

lemma in_entriesOf:
  "e \<in> set (entriesOf idx B ps) \<Longrightarrow>
   irt e \<in> set ps \<and> assetE e = asset (irt e) \<and> quote (irt e) = ''IRT'' \<and> assetE e \<noteq> B \<and>
   idx (pairKey (assetE e) B) = Some (baseE e)"
  by (induction ps) (auto split: if_splits option.splits)

lemma in_buildAssetEntries:
  assumes "e \<in> set (buildAssetEntries pairs B)"
  shows "irt e \<in> set pairs" and "baseE e \<in> set pairs" and "assetE e = asset (irt e)"
    and "quote (irt e) = ''IRT''" and "assetE e \<noteq> B"
    and "pairKey (asset (baseE e)) (quote (baseE e)) = pairKey (assetE e) B"
proof -
  from assms have e: "irt e \<in> set pairs \<and> assetE e = asset (irt e) \<and> quote (irt e) = ''IRT'' \<and>
      assetE e \<noteq> B \<and> indexPairs pairs (pairKey (assetE e) B) = Some (baseE e)"
    unfolding buildAssetEntries_def by (rule in_entriesOf)
  then show "irt e \<in> set pairs" "assetE e = asset (irt e)" "quote (irt e) = ''IRT''" "assetE e \<noteq> B"
    by blast+
  from e have "indexPairs pairs (pairKey (assetE e) B) = Some (baseE e)" by blast
  from indexPairs_Some [OF this]
  show "baseE e \<in> set pairs" "pairKey (asset (baseE e)) (quote (baseE e)) = pairKey (assetE e) B"
    by simp_all
qed

lemma withRatio_fields [simp]:
  "irt (withRatio rnd e) = irt e" "baseE (withRatio rnd e) = baseE e"
  "assetE (withRatio rnd e) = assetE e"
  by (simp_all add: withRatio_def)

lemma num_div_not_NaN:
  assumes "\<forall>x. rnd x \<noteq> NaN" and "a \<noteq> NaN" and "0 < y"
  shows "num_div rnd a (Fin y) \<noteq> NaN"
  using assms by (cases a) auto

lemma num_mul_not_NaN:
  assumes "\<forall>x. rnd x \<noteq> NaN" and "a \<noteq> NaN" and "0 < y"
  shows "num_mul rnd a (Fin y) \<noteq> NaN"
  using assms by (cases a) auto

lemma Math_min_not_NaN: "(\<forall>c \<in> set caps. c \<noteq> NaN) \<Longrightarrow> Math_min caps \<noteq> NaN"
  by (induction caps) (auto simp: min2_def)

lemma cross_volume_not_NaN:
  assumes r: "\<forall>x. rnd x \<noteq> NaN"
    and "validPair (irt s)" and "validPair (baseE s)"
    and "validPair (irt b)" and "validPair (baseE b)"
  shows "maxVolumeIRT (crossCandidate rnd B T s b) \<noteq> NaN"
proof -
  from assms(2) obtain sa saq where si: "bestAsk (irt s) = Fin sa" "0 < sa"
      "bestAskQty (irt s) = Fin saq"
    by (elim validPair_elim)
  from assms(3) obtain sb sbq where sb: "bestBid (baseE s) = Fin sb" "0 < sb"
      "bestBidQty (baseE s) = Fin sbq"
    by (elim validPair_elim)
  from assms(4) obtain bbq where bi: "bestBidQty (irt b) = Fin bbq"
    by (elim validPair_elim)
  from assms(5) obtain ba baq where bb: "bestAsk (baseE b) = Fin ba" "bestAskQty (baseE b) = Fin baq"
    by (elim validPair_elim)
  define l3 where "l3 = num_div rnd (num_mul rnd (Fin baq) (Fin ba)) (Fin sb)"
  define l4 where "l4 = num_div rnd (num_mul rnd (Fin bbq) (Fin ba)) (Fin sb)"
  have "l3 \<noteq> NaN" unfolding l3_def using r sb(2) by (intro num_div_not_NaN) simp_all
  moreover have "l4 \<noteq> NaN" unfolding l4_def using r sb(2) by (intro num_div_not_NaN) simp_all
  ultimately have m: "Math_min [Fin saq, Fin sbq, l3, l4] \<noteq> NaN"
    by (intro Math_min_not_NaN) simp
  have "maxVolumeIRT (crossCandidate rnd B T s b) =
      num_mul rnd (Math_min [Fin saq, Fin sbq, l3, l4]) (Fin sa)"
    using sb(2) by (simp add: crossCandidate_def Let_def si sb bi bb l3_def l4_def num_gt_def)
  with m r si(2) show ?thesis by (simp add: num_mul_not_NaN)
qed

lemma crossResults_volume_not_NaN:
  assumes "soundRounding rnd" and "\<forall>p \<in> set pairs. validPair p"
    and "x \<in> set (crossResults rnd pairs B fee)"
  shows "maxVolumeIRT x \<noteq> NaN"
  using assms(3)
proof (rule in_crossResults)
  fix s b
  assume s: "s \<in> set (map (withRatio rnd) (buildAssetEntries pairs B))"
    and b: "b \<in> set (map (withRatio rnd) (buildAssetEntries pairs B))"
    and x: "x \<in> set (crossStep rnd B (num_mul rnd (Fin 4) fee) s b)"
  from s obtain es where es: "es \<in> set (buildAssetEntries pairs B)" "s = withRatio rnd es" by auto
  from b obtain eb where eb: "eb \<in> set (buildAssetEntries pairs B)" "b = withRatio rnd eb" by auto
  from es eb assms(2) have v: "validPair (irt s)" "validPair (baseE s)"
      "validPair (irt b)" "validPair (baseE b)"
    using in_buildAssetEntries(1,2) by auto
  from assms(1) have r: "\<forall>x. rnd x \<noteq> NaN" by (simp add: soundRounding_def)
  from x have "x = crossCandidate rnd B (num_mul rnd (Fin 4) fee) s b" by (rule in_crossStep)
  with cross_volume_not_NaN [OF r v] show ?thesis by simp
qed

text \<open>
  C4. In every opportunity that \<open>findTriangles\<close> returns, \<open>bottleneckLeg\<close> is the
  index of a least capacity among the legs' capacities in the common unit, and the
  first such index (every capacity before it is greater); \<open>maxVolumeIRT\<close> is the
  notional of that capacity. The same holds for every opportunity that
  \<open>findCrossPairs\<close> returns and whose volume is not NaN; and the volume is never NaN
  when the input pairs satisfy the invariant of market pairs and the rounding is sound.
\<close>

theorem bottleneck_first_minimum:
  "(\<forall>x \<in> set (findTriangles rnd pairs B fee).
      firstMinimum (capacities rnd x) (bottleneckLeg x) \<and>
      maxVolumeIRT x = notional rnd x (capacities rnd x ! bottleneckLeg x)) \<and>
   (\<forall>x \<in> set (findCrossPairs rnd pairs B fee maxResults).
      maxVolumeIRT x \<noteq> NaN \<longrightarrow>
      firstMinimum (capacities rnd x) (bottleneckLeg x) \<and>
      maxVolumeIRT x = notional rnd x (capacities rnd x ! bottleneckLeg x)) \<and>
   (soundRounding rnd \<and> (\<forall>p \<in> set pairs. validPair p) \<longrightarrow>
      (\<forall>x \<in> set (findCrossPairs rnd pairs B fee maxResults). maxVolumeIRT x \<noteq> NaN))"
proof (intro conjI ballI impI)
  fix x assume "x \<in> set (findTriangles rnd pairs B fee)"
  from triangle_bottleneck [OF this]
  show "firstMinimum (capacities rnd x) (bottleneckLeg x)"
    and "maxVolumeIRT x = notional rnd x (capacities rnd x ! bottleneckLeg x)" by simp_all
next
  fix x assume "x \<in> set (findCrossPairs rnd pairs B fee maxResults)" and "maxVolumeIRT x \<noteq> NaN"
  then have "firstMinimum (capacities rnd x) (bottleneckLeg x) \<and>
      maxVolumeIRT x = notional rnd x (capacities rnd x ! bottleneckLeg x)"
    using crossResults_bottleneck in_findCrossPairs by blast
  then show "firstMinimum (capacities rnd x) (bottleneckLeg x)"
    and "maxVolumeIRT x = notional rnd x (capacities rnd x ! bottleneckLeg x)" by simp_all
next
  fix x
  assume "soundRounding rnd \<and> (\<forall>p \<in> set pairs. validPair p)"
    and "x \<in> set (findCrossPairs rnd pairs B fee maxResults)"
  then show "maxVolumeIRT x \<noteq> NaN"
    using crossResults_volume_not_NaN in_findCrossPairs by blast
qed

lemma unevenPairs_valid: "\<forall>p \<in> set unevenPairs. validPair p"
  by (simp add: unevenPairs_def mkPair_def validPair_def num_gt_def num_le_def)

lemma unevenPairs_first_triangle:
  "findTriangles Fin unevenPairs ''USDT'' (Fin 0) \<noteq> [] \<and>
   capacities Fin (hd (findTriangles Fin unevenPairs ''USDT'' (Fin 0))) = [Fin 5, Fin 3, Fin 4] \<and>
   bottleneckLeg (hd (findTriangles Fin unevenPairs ''USDT'' (Fin 0))) = 1"
  by code_simp

lemma unevenPairs_first_cross:
  "findCrossPairs Fin unevenPairs ''USDT'' (Fin 0) (Fin 200) \<noteq> [] \<and>
   capacities Fin (hd (findCrossPairs Fin unevenPairs ''USDT'' (Fin 0) (Fin 200))) =
     [Fin 5, Fin 3, Fin (1 / 2), Fin (1 / 2)] \<and>
   bottleneckLeg (hd (findCrossPairs Fin unevenPairs ''USDT'' (Fin 0) (Fin 200))) = 2"
  by code_simp

theorem bottleneck_first_minimum_witness:
  "(\<exists>x. x \<in> set (findTriangles Fin unevenPairs ''USDT'' (Fin 0)) \<and>
        capacities Fin x = [Fin 5, Fin 3, Fin 4] \<and> bottleneckLeg x = 1 \<and>
        firstMinimum (capacities Fin x) (bottleneckLeg x) \<and>
        maxVolumeIRT x = notional Fin x (capacities Fin x ! bottleneckLeg x)) \<and>
   (\<exists>y. y \<in> set (findCrossPairs Fin unevenPairs ''USDT'' (Fin 0) (Fin 200)) \<and>
        capacities Fin y = [Fin 5, Fin 3, Fin (1 / 2), Fin (1 / 2)] \<and> bottleneckLeg y = 2 \<and>
        maxVolumeIRT y \<noteq> NaN \<and>
        firstMinimum (capacities Fin y) (bottleneckLeg y) \<and>
        maxVolumeIRT y = notional Fin y (capacities Fin y ! bottleneckLeg y))"
proof -
  note t = bottleneck_first_minimum [of Fin unevenPairs "''USDT''" "Fin 0" "Fin 200"]
  let ?x = "hd (findTriangles Fin unevenPairs ''USDT'' (Fin 0))"
  let ?y = "hd (findCrossPairs Fin unevenPairs ''USDT'' (Fin 0) (Fin 200))"
  have x: "?x \<in> set (findTriangles Fin unevenPairs ''USDT'' (Fin 0))"
    using unevenPairs_first_triangle by simp
  have y: "?y \<in> set (findCrossPairs Fin unevenPairs ''USDT'' (Fin 0) (Fin 200))"
    using unevenPairs_first_cross by simp
  from t x have 1: "firstMinimum (capacities Fin ?x) (bottleneckLeg ?x) \<and>
      maxVolumeIRT ?x = notional Fin ?x (capacities Fin ?x ! bottleneckLeg ?x)"
    by blast
  from t y soundRounding_Fin unevenPairs_valid have n: "maxVolumeIRT ?y \<noteq> NaN"
    by blast
  with t y have 2: "firstMinimum (capacities Fin ?y) (bottleneckLeg ?y) \<and>
      maxVolumeIRT ?y = notional Fin ?y (capacities Fin ?y ! bottleneckLeg ?y)"
    by blast
  from x 1 unevenPairs_first_triangle have
    "\<exists>x. x \<in> set (findTriangles Fin unevenPairs ''USDT'' (Fin 0)) \<and>
        capacities Fin x = [Fin 5, Fin 3, Fin 4] \<and> bottleneckLeg x = 1 \<and>
        firstMinimum (capacities Fin x) (bottleneckLeg x) \<and>
        maxVolumeIRT x = notional Fin x (capacities Fin x ! bottleneckLeg x)"
    by blast
  moreover from y 2 n unevenPairs_first_cross have
    "\<exists>y. y \<in> set (findCrossPairs Fin unevenPairs ''USDT'' (Fin 0) (Fin 200)) \<and>
        capacities Fin y = [Fin 5, Fin 3, Fin (1 / 2), Fin (1 / 2)] \<and> bottleneckLeg y = 2 \<and>
        maxVolumeIRT y \<noteq> NaN \<and>
        firstMinimum (capacities Fin y) (bottleneckLeg y) \<and>
        maxVolumeIRT y = notional Fin y (capacities Fin y ! bottleneckLeg y)"
    by blast
  ultimately show ?thesis by blast
qed

subsection \<open>Which triangles are emitted\<close>

lemma pushIf_iff:
  "x \<in> set (pushIf c) \<longleftrightarrow> x = c \<and> isFinite (rate c) \<and> num_gt (maxVolumeIRT c) (Fin 0)"
  by (auto simp: pushIf_def)

lemma trianglesLoop_set:
  "set (trianglesLoop rnd B T bridge es) =
     (\<Union>e \<in> set es. set (pushIf (cwCandidate rnd B T bridge e)) \<union>
                    set (pushIf (ccwCandidate rnd B T bridge e)))"
  by (induction es) auto

lemma findTriangles_set:
  assumes "indexPairs pairs (pairKey B ''IRT'') = Some bridge"
  shows "set (findTriangles rnd pairs B fee) =
     (\<Union>e \<in> set (buildAssetEntries pairs B).
        set (pushIf (cwCandidate rnd B (num_mul rnd (Fin 3) fee) bridge e)) \<union>
        set (pushIf (ccwCandidate rnd B (num_mul rnd (Fin 3) fee) bridge e)))"
  using assms by (simp add: findTriangles_def trianglesLoop_set)

lemma emitted_cw:
  assumes "indexPairs pairs (pairKey B ''IRT'') = Some bridge"
    and "e \<in> set (buildAssetEntries pairs B)"
  shows "cwCandidate rnd B (num_mul rnd (Fin 3) fee) bridge e \<in> set (findTriangles rnd pairs B fee) \<longleftrightarrow>
     isFinite (rate (cwCandidate rnd B (num_mul rnd (Fin 3) fee) bridge e)) \<and>
     num_gt (maxVolumeIRT (cwCandidate rnd B (num_mul rnd (Fin 3) fee) bridge e)) (Fin 0)"
  unfolding findTriangles_set [OF assms(1)] using assms(2)
  by (auto simp: pushIf_iff)

lemma emitted_ccw:
  assumes "indexPairs pairs (pairKey B ''IRT'') = Some bridge"
    and "e \<in> set (buildAssetEntries pairs B)"
  shows "ccwCandidate rnd B (num_mul rnd (Fin 3) fee) bridge e \<in> set (findTriangles rnd pairs B fee) \<longleftrightarrow>
     isFinite (rate (ccwCandidate rnd B (num_mul rnd (Fin 3) fee) bridge e)) \<and>
     num_gt (maxVolumeIRT (ccwCandidate rnd B (num_mul rnd (Fin 3) fee) bridge e)) (Fin 0)"
  unfolding findTriangles_set [OF assms(1)] using assms(2)
  by (auto simp: pushIf_iff)

lemma num_le_antisym: "num_le a b \<Longrightarrow> num_le b a \<Longrightarrow> a = b"
  using num_lt_total by (auto simp: num_le_def)

lemma num_le_not_NaN: "num_le a b \<Longrightarrow> a \<noteq> NaN \<and> b \<noteq> NaN"
  by (simp add: num_le_def)

lemma Math_min_zero:
  assumes "Fin 0 \<in> set caps" and "\<forall>c \<in> set caps. num_le (Fin 0) c"
  shows "Math_min caps = Fin 0"
proof -
  from assms(2) have "\<forall>c \<in> set caps. c \<noteq> NaN" using num_le_not_NaN by blast
  then have n: "Math_min caps \<noteq> NaN" by (rule Math_min_not_NaN)
  from assms(1) have "caps \<noteq> []" by auto
  from Math_min_in [OF this n] assms(2) have "num_le (Fin 0) (Math_min caps)" by blast
  moreover from Math_min_le [OF n assms(1)] have "num_le (Math_min caps) (Fin 0)" by simp
  ultimately show ?thesis using num_le_antisym by blast
qed

lemma sound_div_nonneg:
  assumes "soundRounding rnd" and "0 \<le> x" and "0 < y"
  shows "num_le (Fin 0) (num_div rnd (Fin x) (Fin y))"
proof -
  from assms(2,3) have "0 \<le> x / y" by simp
  with assms(1) have "num_le (Fin 0) (rnd (x / y))" by (simp add: soundRounding_def)
  with assms(3) show ?thesis by simp
qed

lemma cw_zero_depth:
  assumes r: "soundRounding rnd"
    and v: "validPair (irt e)" "validPair (baseE e)" "validPair bridge"
    and z: "bestAskQty (irt e) = Fin 0"
  shows "maxVolumeIRT (cwCandidate rnd B T bridge e) = Fin 0"
proof -
  from v(1) obtain xa where xi: "bestAsk (irt e) = Fin xa" by (elim validPair_elim)
  from v(2) obtain xb xbq where xb: "bestBid (baseE e) = Fin xb" "0 < xb"
      "bestBidQty (baseE e) = Fin xbq" "0 \<le> xbq"
    by (elim validPair_elim)
  from v(3) obtain bbq where bb: "bestBidQty bridge = Fin bbq" "0 \<le> bbq"
    by (elim validPair_elim)
  define l3 where "l3 = num_div rnd (Fin bbq) (Fin xb)"
  have "num_le (Fin 0) l3" unfolding l3_def using r bb(2) xb(2) by (rule sound_div_nonneg)
  with xb(4) have "Math_min [Fin 0, Fin xbq, l3] = Fin 0"
    by (intro Math_min_zero) (simp_all add: num_le_def)
  moreover have "maxVolumeIRT (cwCandidate rnd B T bridge e) =
      num_mul rnd (Math_min [Fin 0, Fin xbq, l3]) (Fin xa)"
    using xb(2) by (simp add: cwCandidate_def Let_def z xi xb bb l3_def num_gt_def)
  ultimately show ?thesis using r by (simp add: soundRounding_def)
qed

lemma ccw_zero_depth:
  assumes r: "soundRounding rnd"
    and v: "validPair (irt e)" "validPair (baseE e)" "validPair bridge"
    and z: "bestAskQty bridge = Fin 0 \<or> bestAskQty (baseE e) = Fin 0"
  shows "maxVolumeIRT (ccwCandidate rnd B T bridge e) = Fin 0"
proof -
  from v(1) obtain xbq where xi: "bestBidQty (irt e) = Fin xbq" "0 \<le> xbq"
    by (elim validPair_elim)
  from v(2) obtain xa xaq where xb: "bestAsk (baseE e) = Fin xa" "0 < xa"
      "bestAskQty (baseE e) = Fin xaq" "0 \<le> xaq"
    by (elim validPair_elim)
  from v(3) obtain ba baq where bb: "bestAsk bridge = Fin ba" "bestAskQty bridge = Fin baq" "0 \<le> baq"
    by (elim validPair_elim)
  define l1 where "l1 = num_div rnd (Fin baq) (Fin xa)"
  have l1: "num_le (Fin 0) l1" unfolding l1_def using r bb(3) xb(2) by (rule sound_div_nonneg)
  from z bb(2) xb(3) have "baq = 0 \<or> xaq = 0" by auto
  moreover have "l1 = Fin 0" if "baq = 0"
    using that r xb(2) by (simp add: l1_def soundRounding_def)
  ultimately have "Fin 0 \<in> set [l1, Fin xaq, Fin xbq]" by auto
  with l1 xb(4) xi(2) have "Math_min [l1, Fin xaq, Fin xbq] = Fin 0"
    by (intro Math_min_zero) (simp_all add: num_le_def)
  moreover have "maxVolumeIRT (ccwCandidate rnd B T bridge e) =
      num_mul rnd (num_mul rnd (Math_min [l1, Fin xaq, Fin xbq]) (Fin xa)) (Fin ba)"
    using xb(2) by (simp add: ccwCandidate_def Let_def xi xb bb l1_def num_gt_def)
  ultimately show ?thesis using r by (simp add: soundRounding_def)
qed

text \<open>
  C6. Let the pair of the bridge currency be indexed and \<open>e\<close> be an entry of the bridge
  index. The clockwise candidate of \<open>e\<close> is among the results of \<open>findTriangles\<close>
  exactly when its rate is finite and its volume is greater than zero, and so is the
  counter-clockwise candidate; no test reads \<open>netPct\<close>, so a candidate with a
  negative \<open>netPct\<close> that passes the two tests is returned. On pairs that satisfy the
  invariant of market pairs and with a sound rounding, a clockwise cycle whose entry
  pair has \<open>bestAskQty = 0\<close> has volume zero and is not returned, and neither is a
  counter-clockwise cycle in which the bridge pair (its entry pair) or the asset's
  bridge pair has \<open>bestAskQty = 0\<close>, whatever the rate.
\<close>

theorem triangle_emission:
  assumes "indexPairs pairs (pairKey B ''IRT'') = Some bridge"
    and "e \<in> set (buildAssetEntries pairs B)"
  shows
   "(cwCandidate rnd B (num_mul rnd (Fin 3) fee) bridge e \<in> set (findTriangles rnd pairs B fee) \<longleftrightarrow>
       isFinite (rate (cwCandidate rnd B (num_mul rnd (Fin 3) fee) bridge e)) \<and>
       num_gt (maxVolumeIRT (cwCandidate rnd B (num_mul rnd (Fin 3) fee) bridge e)) (Fin 0)) \<and>
    (ccwCandidate rnd B (num_mul rnd (Fin 3) fee) bridge e \<in> set (findTriangles rnd pairs B fee) \<longleftrightarrow>
       isFinite (rate (ccwCandidate rnd B (num_mul rnd (Fin 3) fee) bridge e)) \<and>
       num_gt (maxVolumeIRT (ccwCandidate rnd B (num_mul rnd (Fin 3) fee) bridge e)) (Fin 0)) \<and>
    (\<forall>c. (c = cwCandidate rnd B (num_mul rnd (Fin 3) fee) bridge e \<or>
           c = ccwCandidate rnd B (num_mul rnd (Fin 3) fee) bridge e) \<and>
          num_lt (netPct c) (Fin 0) \<and> isFinite (rate c) \<and> num_gt (maxVolumeIRT c) (Fin 0) \<longrightarrow>
          c \<in> set (findTriangles rnd pairs B fee)) \<and>
    (soundRounding rnd \<and> (\<forall>p \<in> set pairs. validPair p) \<and> bestAskQty (irt e) = Fin 0 \<longrightarrow>
       maxVolumeIRT (cwCandidate rnd B (num_mul rnd (Fin 3) fee) bridge e) = Fin 0 \<and>
       cwCandidate rnd B (num_mul rnd (Fin 3) fee) bridge e \<notin> set (findTriangles rnd pairs B fee)) \<and>
    (soundRounding rnd \<and> (\<forall>p \<in> set pairs. validPair p) \<and>
       (bestAskQty bridge = Fin 0 \<or> bestAskQty (baseE e) = Fin 0) \<longrightarrow>
       maxVolumeIRT (ccwCandidate rnd B (num_mul rnd (Fin 3) fee) bridge e) = Fin 0 \<and>
       ccwCandidate rnd B (num_mul rnd (Fin 3) fee) bridge e \<notin> set (findTriangles rnd pairs B fee))"
proof -
  let ?T = "num_mul rnd (Fin 3) fee"
  note cw = emitted_cw [OF assms, of rnd fee]
  note ccw = emitted_ccw [OF assms, of rnd fee]
  have pairs: "irt e \<in> set pairs" "baseE e \<in> set pairs" "bridge \<in> set pairs"
    using in_buildAssetEntries(1,2) [OF assms(2)] indexPairs_Some [OF assms(1)] by simp_all
  have neg: "\<forall>c. (c = cwCandidate rnd B ?T bridge e \<or> c = ccwCandidate rnd B ?T bridge e) \<and>
          num_lt (netPct c) (Fin 0) \<and> isFinite (rate c) \<and> num_gt (maxVolumeIRT c) (Fin 0) \<longrightarrow>
          c \<in> set (findTriangles rnd pairs B fee)"
    using cw ccw by blast
  have z1: "maxVolumeIRT (cwCandidate rnd B ?T bridge e) = Fin 0 \<and>
       cwCandidate rnd B ?T bridge e \<notin> set (findTriangles rnd pairs B fee)"
    if h: "soundRounding rnd \<and> (\<forall>p \<in> set pairs. validPair p) \<and> bestAskQty (irt e) = Fin 0"
  proof -
    from h pairs have "maxVolumeIRT (cwCandidate rnd B ?T bridge e) = Fin 0"
      by (intro cw_zero_depth) auto
    then show ?thesis using cw by (simp add: num_gt_def)
  qed
  have z2: "maxVolumeIRT (ccwCandidate rnd B ?T bridge e) = Fin 0 \<and>
       ccwCandidate rnd B ?T bridge e \<notin> set (findTriangles rnd pairs B fee)"
    if h: "soundRounding rnd \<and> (\<forall>p \<in> set pairs. validPair p) \<and>
       (bestAskQty bridge = Fin 0 \<or> bestAskQty (baseE e) = Fin 0)"
  proof -
    from h pairs have "maxVolumeIRT (ccwCandidate rnd B ?T bridge e) = Fin 0"
      by (intro ccw_zero_depth) auto
    then show ?thesis using ccw by (simp add: num_gt_def)
  qed
  from cw ccw neg z1 z2 show ?thesis by blast
qed

lemma fivePairs_bridge:
  "indexPairs fivePairs (pairKey ''USDT'' ''IRT'') = Some (mkPair ''USDT'' ''IRT'' 1 1 1 1)"
  by code_simp

lemma fivePairs_entry:
  "\<lparr>assetE = ''X'', irt = mkPair ''X'' ''IRT'' 1 1 1 1, baseE = mkPair ''X'' ''USDT'' 1 1 1 1\<rparr>
     \<in> set (buildAssetEntries fivePairs ''USDT'')"
  by code_simp

lemma zeroDepthPairs_bridge:
  "indexPairs zeroDepthPairs (pairKey ''USDT'' ''IRT'') = Some (mkPair ''USDT'' ''IRT'' 1 1 1 1)"
  by code_simp

lemma zeroDepthPairs_entry:
  "\<lparr>assetE = ''X'', irt = mkPair ''X'' ''IRT'' 1 1 1 0, baseE = mkPair ''X'' ''USDT'' 2 1 2 1\<rparr>
     \<in> set (buildAssetEntries zeroDepthPairs ''USDT'')"
  by code_simp

lemma zeroDepthPairs_valid: "\<forall>p \<in> set zeroDepthPairs. validPair p"
  by (simp add: zeroDepthPairs_def mkPair_def validPair_def num_gt_def num_le_def)

lemma fivePairs_cw:
  "netPct (cwCandidate Fin ''USDT'' (Fin 3) (mkPair ''USDT'' ''IRT'' 1 1 1 1)
      \<lparr>assetE = ''X'', irt = mkPair ''X'' ''IRT'' 1 1 1 1, baseE = mkPair ''X'' ''USDT'' 1 1 1 1\<rparr>)
     = Fin (- 3) \<and>
   rate (cwCandidate Fin ''USDT'' (Fin 3) (mkPair ''USDT'' ''IRT'' 1 1 1 1)
      \<lparr>assetE = ''X'', irt = mkPair ''X'' ''IRT'' 1 1 1 1, baseE = mkPair ''X'' ''USDT'' 1 1 1 1\<rparr>)
     = Fin 1 \<and>
   maxVolumeIRT (cwCandidate Fin ''USDT'' (Fin 3) (mkPair ''USDT'' ''IRT'' 1 1 1 1)
      \<lparr>assetE = ''X'', irt = mkPair ''X'' ''IRT'' 1 1 1 1, baseE = mkPair ''X'' ''USDT'' 1 1 1 1\<rparr>)
     = Fin 1"
  by code_simp

lemma zeroDepthPairs_cw:
  "rate (cwCandidate Fin ''USDT'' (Fin 0) (mkPair ''USDT'' ''IRT'' 1 1 1 1)
      \<lparr>assetE = ''X'', irt = mkPair ''X'' ''IRT'' 1 1 1 0, baseE = mkPair ''X'' ''USDT'' 2 1 2 1\<rparr>)
     = Fin 2"
  by code_simp

theorem triangle_emission_witness:
  "cwCandidate Fin ''USDT'' (Fin 3) (mkPair ''USDT'' ''IRT'' 1 1 1 1)
      \<lparr>assetE = ''X'', irt = mkPair ''X'' ''IRT'' 1 1 1 1, baseE = mkPair ''X'' ''USDT'' 1 1 1 1\<rparr>
     \<in> set (findTriangles Fin fivePairs ''USDT'' (Fin 1)) \<and>
   netPct (cwCandidate Fin ''USDT'' (Fin 3) (mkPair ''USDT'' ''IRT'' 1 1 1 1)
      \<lparr>assetE = ''X'', irt = mkPair ''X'' ''IRT'' 1 1 1 1, baseE = mkPair ''X'' ''USDT'' 1 1 1 1\<rparr>)
     = Fin (- 3) \<and>
   rate (cwCandidate Fin ''USDT'' (Fin 0) (mkPair ''USDT'' ''IRT'' 1 1 1 1)
      \<lparr>assetE = ''X'', irt = mkPair ''X'' ''IRT'' 1 1 1 0, baseE = mkPair ''X'' ''USDT'' 2 1 2 1\<rparr>)
     = Fin 2 \<and>
   maxVolumeIRT (cwCandidate Fin ''USDT'' (Fin 0) (mkPair ''USDT'' ''IRT'' 1 1 1 1)
      \<lparr>assetE = ''X'', irt = mkPair ''X'' ''IRT'' 1 1 1 0, baseE = mkPair ''X'' ''USDT'' 2 1 2 1\<rparr>)
     = Fin 0 \<and>
   cwCandidate Fin ''USDT'' (Fin 0) (mkPair ''USDT'' ''IRT'' 1 1 1 1)
      \<lparr>assetE = ''X'', irt = mkPair ''X'' ''IRT'' 1 1 1 0, baseE = mkPair ''X'' ''USDT'' 2 1 2 1\<rparr>
     \<notin> set (findTriangles Fin zeroDepthPairs ''USDT'' (Fin 0))"
proof -
  let ?e = "\<lparr>assetE = ''X'', irt = mkPair ''X'' ''IRT'' 1 1 1 1, baseE = mkPair ''X'' ''USDT'' 1 1 1 1\<rparr>"
  let ?z = "\<lparr>assetE = ''X'', irt = mkPair ''X'' ''IRT'' 1 1 1 0, baseE = mkPair ''X'' ''USDT'' 2 1 2 1\<rparr>"
  let ?b = "mkPair ''USDT'' ''IRT'' 1 1 1 1"
  have f3: "num_mul Fin (Fin 3) (Fin 1) = Fin 3" and f0: "num_mul Fin (Fin 3) (Fin 0) = Fin 0"
    by simp_all
  note t1 = triangle_emission [OF fivePairs_bridge fivePairs_entry, of Fin "Fin 1", unfolded f3]
  note t2 = triangle_emission [OF zeroDepthPairs_bridge zeroDepthPairs_entry, of Fin "Fin 0",
      unfolded f0]
  have "cwCandidate Fin ''USDT'' (Fin 3) ?b ?e \<in> set (findTriangles Fin fivePairs ''USDT'' (Fin 1))"
    using t1 fivePairs_cw by (simp add: num_gt_def)
  moreover have "bestAskQty (irt ?z) = Fin 0" by (simp add: mkPair_def)
  with t2 soundRounding_Fin zeroDepthPairs_valid
  have "maxVolumeIRT (cwCandidate Fin ''USDT'' (Fin 0) ?b ?z) = Fin 0 \<and>
      cwCandidate Fin ''USDT'' (Fin 0) ?b ?z \<notin> set (findTriangles Fin zeroDepthPairs ''USDT'' (Fin 0))"
    by blast
  ultimately show ?thesis using fivePairs_cw zeroDepthPairs_cw by blast
qed

subsection \<open>The sort orders and is stable\<close>

lemma set_insertBy: "set (insertBy cmp x ys) = insert x (set ys)"
  by (induction ys) auto

lemma sorted_insertBy:
  assumes "sorted_wrt ord ys"
    and "\<forall>y \<in> set ys. num_gt (cmp x y) (Fin 0) \<longrightarrow> ord y x"
    and "\<forall>y \<in> set ys. \<not> num_gt (cmp x y) (Fin 0) \<longrightarrow> ord x y"
    and "\<forall>y \<in> set ys. \<forall>z \<in> set ys. ord x y \<longrightarrow> ord y z \<longrightarrow> ord x z"
  shows "sorted_wrt ord (insertBy cmp x ys)"
  using assms
proof (induction ys)
  case Nil
  show ?case by simp
next
  case (Cons y ys)
  have tail: "sorted_wrt ord ys" and head: "\<forall>z \<in> set ys. ord y z"
    using Cons.prems(1) by simp_all
  show ?case
  proof (cases "num_gt (cmp x y) (Fin 0)")
    case True
    have "sorted_wrt ord (insertBy cmp x ys)"
    proof (rule Cons.IH [OF tail])
      show "\<forall>y \<in> set ys. num_gt (cmp x y) (Fin 0) \<longrightarrow> ord y x"
        using Cons.prems(2) by (meson list.set_intros(2))
      show "\<forall>y \<in> set ys. \<not> num_gt (cmp x y) (Fin 0) \<longrightarrow> ord x y"
        using Cons.prems(3) by (meson list.set_intros(2))
      show "\<forall>y \<in> set ys. \<forall>z \<in> set ys. ord x y \<longrightarrow> ord y z \<longrightarrow> ord x z"
        using Cons.prems(4) by (meson list.set_intros(2))
    qed
    moreover have "ord y x" using Cons.prems(2) True by (meson list.set_intros(1))
    moreover have "insertBy cmp x (y # ys) = y # insertBy cmp x ys" using True by simp
    moreover have "\<forall>z \<in> set (insertBy cmp x ys). ord y z"
      using head \<open>ord y x\<close> unfolding set_insertBy by blast
    ultimately show ?thesis by (simp only: sorted_wrt.simps)
  next
    case False
    then have xy: "ord x y" using Cons.prems(3) by (meson list.set_intros(1))
    have "\<forall>z \<in> set ys. ord x z"
    proof
      fix z assume z: "z \<in> set ys"
      with head have "ord y z" by blast
      with xy z Cons.prems(4) show "ord x z" by (meson list.set_intros)
    qed
    moreover have "insertBy cmp x (y # ys) = x # y # ys" using False by simp
    ultimately show ?thesis using xy tail head by (simp only: sorted_wrt.simps set_simps ball_simps)
  qed
qed

lemma sorted_sortBy:
  assumes "\<forall>x \<in> set xs. \<forall>y \<in> set xs. num_gt (cmp x y) (Fin 0) \<longrightarrow> ord y x"
    and "\<forall>x \<in> set xs. \<forall>y \<in> set xs. \<not> num_gt (cmp x y) (Fin 0) \<longrightarrow> ord x y"
    and "\<forall>x \<in> set xs. \<forall>y \<in> set xs. \<forall>z \<in> set xs. ord x y \<longrightarrow> ord y z \<longrightarrow> ord x z"
  shows "sorted_wrt ord (sortBy cmp xs)"
  using assms
proof (induction xs)
  case Nil
  show ?case by (simp add: sortBy_def)
next
  case (Cons x xs)
  have e: "set (sortBy cmp xs) = set xs" by (rule set_sortBy)
  have s: "sorted_wrt ord (sortBy cmp xs)"
  proof (rule Cons.IH)
    show "\<forall>x \<in> set xs. \<forall>y \<in> set xs. num_gt (cmp x y) (Fin 0) \<longrightarrow> ord y x"
      using Cons.prems(1) by (meson list.set_intros(2))
    show "\<forall>x \<in> set xs. \<forall>y \<in> set xs. \<not> num_gt (cmp x y) (Fin 0) \<longrightarrow> ord x y"
      using Cons.prems(2) by (meson list.set_intros(2))
    show "\<forall>x \<in> set xs. \<forall>y \<in> set xs. \<forall>z \<in> set xs. ord x y \<longrightarrow> ord y z \<longrightarrow> ord x z"
      using Cons.prems(3) by (meson list.set_intros(2))
  qed
  have "sorted_wrt ord (insertBy cmp x (sortBy cmp xs))"
  proof (rule sorted_insertBy [OF s], unfold e)
    show "\<forall>y \<in> set xs. num_gt (cmp x y) (Fin 0) \<longrightarrow> ord y x"
      using Cons.prems(1) by (meson list.set_intros)
    show "\<forall>y \<in> set xs. \<not> num_gt (cmp x y) (Fin 0) \<longrightarrow> ord x y"
      using Cons.prems(2) by (meson list.set_intros)
    show "\<forall>y \<in> set xs. \<forall>z \<in> set xs. ord x y \<longrightarrow> ord y z \<longrightarrow> ord x z"
      using Cons.prems(3) by (meson list.set_intros)
  qed
  then show ?case by (simp add: sortBy_def)
qed

lemma filter_insertBy:
  assumes "\<forall>y \<in> set ys. P x \<longrightarrow> P y \<longrightarrow> \<not> num_gt (cmp x y) (Fin 0)"
  shows "filter P (insertBy cmp x ys) = (if P x then x # filter P ys else filter P ys)"
  using assms by (induction ys) simp_all

lemma filter_sortBy:
  assumes "\<forall>x \<in> set xs. \<forall>y \<in> set xs. P x \<longrightarrow> P y \<longrightarrow> \<not> num_gt (cmp x y) (Fin 0)"
  shows "filter P (sortBy cmp xs) = filter P xs"
  using assms
proof (induction xs)
  case Nil
  then show ?case by (simp add: sortBy_def)
next
  case (Cons x xs)
  have "filter P (sortBy cmp xs) = filter P xs"
    using Cons.prems by (intro Cons.IH) simp
  moreover have "filter P (insertBy cmp x (sortBy cmp xs)) =
      (if P x then x # filter P (sortBy cmp xs) else filter P (sortBy cmp xs))"
    using Cons.prems by (intro filter_insertBy) (simp add: set_sortBy)
  ultimately show ?case by (simp add: sortBy_def)
qed

subsection \<open>The comparison of two sort keys\<close>

lemma sub_gt_imp_not_lt:
  assumes "soundRounding rnd" and "num_gt (num_sub rnd b a) (Fin 0)"
  shows "\<not> num_lt b a"
proof (cases "\<exists>x y. a = Fin x \<and> b = Fin y")
  case True
  then obtain x y where ab: "a = Fin x" "b = Fin y" by blast
  show ?thesis
  proof
    assume "num_lt b a"
    with ab have "y - x \<le> 0" by simp
    with assms(1) have "num_le (rnd (y - x)) (Fin 0)" by (simp add: soundRounding_def)
    with assms(2) ab show False by (simp add: num_le_def num_gt_def)
  qed
next
  case False
  with assms(2) show ?thesis
    by (cases a; cases b) (simp_all add: num_gt_def)
qed

lemma not_sub_gt_imp_not_lt:
  assumes "ieeeRounding rnd" and "orderedKey rnd a" and "orderedKey rnd b"
    and "\<not> num_gt (num_sub rnd b a) (Fin 0)"
  shows "\<not> num_lt a b"
proof (cases "\<exists>x y. a = Fin x \<and> b = Fin y")
  case True
  then obtain x y where ab: "a = Fin x" "b = Fin y" by blast
  from assms(1) have s: "soundRounding rnd" by (simp add: ieeeRounding_def)
  from assms(2,3) ab have rep: "rnd x = Fin x" "rnd y = Fin y"
    by (simp_all add: orderedKey_def)
  show ?thesis
  proof
    assume "num_lt a b"
    with ab have lt: "x < y" by simp
    with assms(1) rep have nz: "rnd (y - x) \<noteq> Fin 0" by (auto simp: ieeeRounding_def)
    from lt s have "num_le (Fin 0) (rnd (y - x))" by (simp add: soundRounding_def)
    with nz have "num_lt (Fin 0) (rnd (y - x))"
      using num_le_neq [of "Fin 0" "rnd (y - x)"] by auto
    with assms(4) ab show False by (simp add: num_gt_def)
  qed
next
  case False
  with assms(2,3,4) show ?thesis
    by (cases a; cases b) (simp_all add: num_gt_def orderedKey_def)
qed

lemma not_lt_trans:
  assumes "b \<noteq> NaN" and "\<not> num_lt a b" and "\<not> num_lt b c"
  shows "\<not> num_lt a c"
  using assms by (cases a; cases b; cases c) simp_all

lemma descending_sortBy:
  assumes r: "ieeeRounding rnd"
    and k: "(\<forall>x \<in> set xs. orderedKey rnd (netPct x)) \<or>
            (\<forall>x \<in> set xs. \<forall>y \<in> set xs. \<not> num_lt (netPct x) (netPct y))"
  shows "descending (sortBy (\<lambda>a b. num_sub rnd (netPct b) (netPct a)) xs)"
  unfolding descending_def
proof (rule sorted_sortBy, intro ballI impI)
  from r have s: "soundRounding rnd" by (simp add: ieeeRounding_def)
  fix x y assume "num_gt (num_sub rnd (netPct y) (netPct x)) (Fin 0)"
  with s show "\<not> num_lt (netPct y) (netPct x)" by (rule sub_gt_imp_not_lt)
next
  show "\<forall>x \<in> set xs. \<forall>y \<in> set xs. \<not> num_gt (num_sub rnd (netPct y) (netPct x)) (Fin 0) \<longrightarrow>
      \<not> num_lt (netPct x) (netPct y)"
  proof (intro ballI impI)
    fix x y assume xy: "x \<in> set xs" "y \<in> set xs"
      and g: "\<not> num_gt (num_sub rnd (netPct y) (netPct x)) (Fin 0)"
    from k show "\<not> num_lt (netPct x) (netPct y)"
    proof
      assume "\<forall>x \<in> set xs. orderedKey rnd (netPct x)"
      with xy have "orderedKey rnd (netPct x)" "orderedKey rnd (netPct y)" by simp_all
      with r show ?thesis using g by (rule not_sub_gt_imp_not_lt)
    next
      assume "\<forall>x \<in> set xs. \<forall>y \<in> set xs. \<not> num_lt (netPct x) (netPct y)"
      with xy show ?thesis by simp
    qed
  qed
next
  show "\<forall>x \<in> set xs. \<forall>y \<in> set xs. \<forall>z \<in> set xs.
      \<not> num_lt (netPct x) (netPct y) \<longrightarrow> \<not> num_lt (netPct y) (netPct z) \<longrightarrow>
      \<not> num_lt (netPct x) (netPct z)"
  proof (intro ballI impI)
    fix x y z assume xy: "x \<in> set xs" "y \<in> set xs" "z \<in> set xs"
      and 1: "\<not> num_lt (netPct x) (netPct y)" and 2: "\<not> num_lt (netPct y) (netPct z)"
    from k show "\<not> num_lt (netPct x) (netPct z)"
    proof
      assume "\<forall>x \<in> set xs. orderedKey rnd (netPct x)"
      with xy have "netPct y \<noteq> NaN" by (auto simp: orderedKey_def)
      then show ?thesis using 1 2 by (rule not_lt_trans)
    next
      assume "\<forall>x \<in> set xs. \<forall>y \<in> set xs. \<not> num_lt (netPct x) (netPct y)"
      with xy show ?thesis by simp
    qed
  qed
qed

subsection \<open>The sort keys of the cross-pair results\<close>

lemma in_crossStep_iff:
  "x \<in> set (crossStep rnd B T s b) \<longleftrightarrow>
     assetE s \<noteq> assetE b \<and> x = crossCandidate rnd B T s b \<and>
     \<not> num_lt (netPct x) (Fin (- 5)) \<and> isFinite (rate x) \<and> \<not> num_le (maxVolumeIRT x) (Fin 0)"
  by (auto simp: crossStep_def Let_def)

lemma gross_not_NaN:
  assumes "\<forall>x. rnd x \<noteq> NaN" and "isFinite r"
  shows "num_mul rnd (num_sub rnd r (Fin 1)) (Fin 100) \<noteq> NaN"
proof -
  from assms(2) obtain x where "r = Fin x" by (cases r) auto
  with assms(1) have "num_sub rnd r (Fin 1) \<noteq> NaN" by simp
  with assms(1) show ?thesis by (intro num_mul_not_NaN) simp_all
qed

lemma cross_gross:
  "grossPct (crossCandidate rnd B T s b) =
     num_mul rnd (num_sub rnd (rate (crossCandidate rnd B T s b)) (Fin 1)) (Fin 100)"
  by (simp add: crossCandidate_def Let_def)

lemma cw_gross:
  "grossPct (cwCandidate rnd B T bridge e) =
     num_mul rnd (num_sub rnd (rate (cwCandidate rnd B T bridge e)) (Fin 1)) (Fin 100)"
  by (simp add: cwCandidate_def Let_def)

lemma ccw_gross:
  "grossPct (ccwCandidate rnd B T bridge e) =
     num_mul rnd (num_sub rnd (rate (ccwCandidate rnd B T bridge e)) (Fin 1)) (Fin 100)"
  by (simp add: ccwCandidate_def Let_def)

lemma finite_fee_key:
  assumes "ieeeRounding rnd" and "g \<noteq> NaN"
  shows "orderedKey rnd (num_sub rnd g (Fin t))"
proof (cases g)
  case (Fin x)
  from assms(1) have n: "rnd (x - t) \<noteq> NaN" by (simp add: ieeeRounding_def soundRounding_def)
  show ?thesis
  proof (cases "rnd (x - t)")
    case k: (Fin y)
    with assms(1) have "rnd y = Fin y" unfolding ieeeRounding_def by blast
    with k Fin show ?thesis by (simp add: orderedKey_def)
  qed (use n Fin in \<open>simp_all add: orderedKey_def\<close>)
qed (use assms(2) in \<open>simp_all add: orderedKey_def\<close>)

lemma infinite_fee_key:
  assumes "\<not> isFinite T" and "\<not> num_lt (num_sub rnd g T) (Fin (- 5))"
  shows "num_sub rnd g T = NaN \<or> num_sub rnd g T = PInf"
  using assms by (cases T; cases g) (simp_all split: if_splits)

lemma crossResults_keys:
  assumes "ieeeRounding rnd"
  shows "(\<forall>x \<in> set (crossResults rnd pairs B fee). orderedKey rnd (netPct x)) \<or>
         (\<forall>x \<in> set (crossResults rnd pairs B fee).
            \<forall>y \<in> set (crossResults rnd pairs B fee). \<not> num_lt (netPct x) (netPct y))"
proof -
  let ?T = "num_mul rnd (Fin 4) fee"
  from assms have r: "\<forall>x. rnd x \<noteq> NaN" by (simp add: ieeeRounding_def soundRounding_def)
  have shape: "netPct x = num_sub rnd (grossPct x) ?T \<and> grossPct x \<noteq> NaN \<and>
      \<not> num_lt (netPct x) (Fin (- 5))"
    if "x \<in> set (crossResults rnd pairs B fee)" for x
    using that
  proof (rule in_crossResults)
    fix s b assume "x \<in> set (crossStep rnd B ?T s b)"
    then have "assetE s \<noteq> assetE b \<and> x = crossCandidate rnd B ?T s b \<and>
        \<not> num_lt (netPct x) (Fin (- 5)) \<and> isFinite (rate x) \<and>
        \<not> num_le (maxVolumeIRT x) (Fin 0)"
      by (rule in_crossStep_iff [THEN iffD1])
    then have x: "x = crossCandidate rnd B ?T s b" and f: "isFinite (rate x)"
      and k: "\<not> num_lt (netPct x) (Fin (- 5))"
      by blast+
    from gross_not_NaN [OF r f] x have "grossPct x \<noteq> NaN" by (simp add: cross_gross)
    with x k show ?thesis by (simp add: crossCandidate_fee)
  qed
  show ?thesis
  proof (cases "isFinite ?T")
    case True
    then obtain t where t: "?T = Fin t" by (cases ?T) auto
    have "\<forall>x \<in> set (crossResults rnd pairs B fee). orderedKey rnd (netPct x)"
    proof
      fix x assume "x \<in> set (crossResults rnd pairs B fee)"
      from shape [OF this] finite_fee_key [OF assms, of "grossPct x" t] t
      show "orderedKey rnd (netPct x)" by simp
    qed
    then show ?thesis ..
  next
    case False
    have e: "netPct x = NaN \<or> netPct x = PInf" if "x \<in> set (crossResults rnd pairs B fee)" for x
      using shape [OF that] infinite_fee_key [OF False, of rnd "grossPct x"] by auto
    have "\<forall>x \<in> set (crossResults rnd pairs B fee).
        \<forall>y \<in> set (crossResults rnd pairs B fee). \<not> num_lt (netPct x) (netPct y)"
    proof (intro ballI)
      fix x y assume "x \<in> set (crossResults rnd pairs B fee)" "y \<in> set (crossResults rnd pairs B fee)"
      then have "netPct x = NaN \<or> netPct x = PInf" "netPct y = NaN \<or> netPct y = PInf"
        using e by blast+
      then show "\<not> num_lt (netPct x) (netPct y)" by auto
    qed
    then show ?thesis ..
  qed
qed

lemma descending_take: "descending xs \<Longrightarrow> descending (take n xs)"
  unfolding descending_def by (rule sorted_wrt_take)

lemma descending_sliceTo: "descending xs \<Longrightarrow> descending (sliceTo m xs)"
  using sliceTo_take [of m xs] descending_take [of xs] by auto

lemma findCrossPairs_descending:
  assumes "ieeeRounding rnd"
  shows "descending (findCrossPairs rnd pairs B fee m)"
  unfolding findCrossPairs_def
  by (intro descending_sliceTo descending_sortBy assms crossResults_keys)

subsection \<open>How many opportunities\<close>

lemma length_pushIf: "length (pushIf c) \<le> 1"
  by (simp add: pushIf_def)

lemma length_trianglesLoop: "length (trianglesLoop rnd B T bridge es) \<le> 2 * length es"
proof (induction es)
  case Nil
  show ?case by simp
next
  case (Cons e es)
  have "length (pushIf (cwCandidate rnd B T bridge e)) \<le> 1"
    and "length (pushIf (ccwCandidate rnd B T bridge e)) \<le> 1"
    by (rule length_pushIf)+
  with Cons.IH show ?case by simp
qed

lemma length_findTriangles:
  "length (findTriangles rnd pairs B fee) \<le> 2 * length (buildAssetEntries pairs B)"
  by (simp add: findTriangles_def length_trianglesLoop split: option.splits)

lemma length_findCrossPairs:
  "num_le (Fin 0) m \<Longrightarrow> num_le (Fin (real (length (findCrossPairs rnd pairs B fee m)))) m"
  unfolding findCrossPairs_def by (rule length_sliceTo)

subsection \<open>The bridgeable assets of a snapshot\<close>

lemma parseEntry_symbol: "parseEntry toNumber (k, v) = Some p \<Longrightarrow> symbol p = k"
  by (elim parseEntry_Some) simp

lemma parsed_symbols: "symbol ` set (parseAllPairs toNumber data) \<subseteq> fst ` set data"
proof
  fix s assume "s \<in> symbol ` set (parseAllPairs toNumber data)"
  then obtain p k v where "(k, v) \<in> set data" "parseEntry toNumber (k, v) = Some p" "s = symbol p"
    by (auto simp: in_parseAllPairs)
  then show "s \<in> fst ` set data" using parseEntry_symbol by force
qed

lemma parsed_distinct:
  "distinct (map fst data) \<Longrightarrow> distinct (map symbol (parseAllPairs toNumber data))"
proof (induction data)
  case Nil
  show ?case by simp
next
  case (Cons e data)
  obtain k v where e: "e = (k, v)" by (cases e)
  from Cons.prems have k: "k \<notin> fst ` set data" and d: "distinct (map fst data)"
    by (simp_all add: e)
  from Cons.IH [OF d] have IH: "distinct (map symbol (parseAllPairs toNumber data))" .
  show ?case
  proof (cases "parseEntry toNumber e")
    case None
    with IH show ?thesis by simp
  next
    case (Some p)
    then have "symbol p = k" unfolding e by (rule parseEntry_symbol)
    with k have "symbol p \<notin> symbol ` set (parseAllPairs toNumber data)"
      using parsed_symbols [of toNumber data] by blast
    with IH Some show ?thesis by simp
  qed
qed

lemma parsed_symbol_split:
  assumes "p \<in> set (parseAllPairs toNumber data)"
  shows "symbol p = asset p @ quote p"
proof -
  from assms obtain e where "parseEntry toNumber e = Some p"
    by (auto simp: in_parseAllPairs)
  then have "parseSymbol (symbol p) = Some (asset p, quote p)"
    by (cases e) (auto elim!: parseEntry_Some)
  then show ?thesis by (auto simp: parseSymbol_Some)
qed

lemma length_entriesOf:
  "length (entriesOf idx B ps) =
     length (filter (\<lambda>p. quote p = ''IRT'' \<and> asset p \<noteq> B \<and> idx (pairKey (asset p) B) \<noteq> None) ps)"
  by (induction ps) (auto split: option.splits)

lemma length_filter_mono:
  "(\<forall>x \<in> set xs. P x \<longrightarrow> Q x) \<Longrightarrow> length (filter P xs) \<le> length (filter Q xs)"
  by (induction xs) auto

lemma entries_le_bridgeable:
  assumes d: "distinct (map symbol ps)"
    and s: "\<forall>p \<in> set ps. symbol p = asset p @ quote p"
    and q: "\<forall>p \<in> set ps. noColon (quote p)"
    and B: "noColon B"
  shows "length (buildAssetEntries ps B) \<le> length (bridgeableAssets ps B)"
proof -
  let ?irt = "filter (\<lambda>p. quote p = ''IRT'') ps"
  let ?has = "\<lambda>a. list_ex (\<lambda>q. asset q = a \<and> quote q = B) ps"
  from d have dp: "distinct ps" and inj: "inj_on symbol (set ps)"
    by (simp_all add: distinct_map)
  have "inj_on asset (set ?irt)"
  proof (rule inj_onI)
    fix x y assume "x \<in> set ?irt" "y \<in> set ?irt" "asset x = asset y"
    with s have "symbol x = symbol y" "x \<in> set ps" "y \<in> set ps" by auto
    with inj show "x = y" by (simp add: inj_on_def)
  qed
  with dp have "distinct (map asset ?irt)" by (simp add: distinct_map)
  then have "distinct (filter ?has (map asset ?irt))" by (rule distinct_filter)
  then have "remdups (filter ?has (map asset ?irt)) = filter ?has (map asset ?irt)"
    by (rule distinct_remdups_id)
  then have "length (bridgeableAssets ps B) = length (filter ?has (map asset ?irt))"
    by (simp only: bridgeableAssets_def)
  also have "\<dots> = length (filter (\<lambda>p. quote p = ''IRT'' \<and> ?has (asset p)) ps)"
    by (simp add: filter_map o_def conj_commute)
  finally have r: "length (bridgeableAssets ps B) =
      length (filter (\<lambda>p. quote p = ''IRT'' \<and> ?has (asset p)) ps)" .
  have "length (buildAssetEntries ps B) =
      length (filter (\<lambda>p. quote p = ''IRT'' \<and> asset p \<noteq> B \<and>
        indexPairs ps (pairKey (asset p) B) \<noteq> None) ps)"
    unfolding buildAssetEntries_def by (rule length_entriesOf)
  also have "\<dots> \<le> length (filter (\<lambda>p. quote p = ''IRT'' \<and> ?has (asset p)) ps)"
  proof (rule length_filter_mono, intro ballI impI)
    fix p assume p: "p \<in> set ps"
      and c: "quote p = ''IRT'' \<and> asset p \<noteq> B \<and> indexPairs ps (pairKey (asset p) B) \<noteq> None"
    then obtain bp where "indexPairs ps (pairKey (asset p) B) = Some bp" by auto
    from indexPairs_Some [OF this]
    have bp: "bp \<in> set ps" "pairKey (asset bp) (quote bp) = pairKey (asset p) B" by simp_all
    from q bp(1) have "noColon (quote bp)" by simp
    from pairKey_inject [OF bp(2) this B] bp(1) have "?has (asset p)"
      by (auto simp: list_ex_iff)
    with c show "quote p = ''IRT'' \<and> ?has (asset p)" by simp
  qed
  finally show ?thesis using r by simp
qed

lemma snapshot_entries_le_bridgeable:
  assumes "distinct (map fst data)" and "noColon B"
  shows "length (buildAssetEntries (parseAllPairs toNumber data) B) \<le>
         length (bridgeableAssets (parseAllPairs toNumber data) B)"
proof (rule entries_le_bridgeable)
  show "distinct (map symbol (parseAllPairs toNumber data))"
    using assms(1) by (rule parsed_distinct)
  show "\<forall>p \<in> set (parseAllPairs toNumber data). symbol p = asset p @ quote p"
    using parsed_symbol_split by blast
  show "\<forall>p \<in> set (parseAllPairs toNumber data). noColon (quote p)"
    using parsed_quote by (fastforce simp: noColon_def)
  show "noColon B" by (rule assms(2))
qed

text \<open>
  C7, as amended. \<open>findTriangles\<close> returns at most two opportunities for each entry of
  the bridge index; on the pairs of a snapshot (whose keys are distinct) and for a
  bridge ticker without \<open>:\<close>, that is at most \<open>2N\<close> for the number \<open>N\<close> of assets that
  have both a pair quoted in \<open>IRT\<close> and a pair quoted in the bridge currency.
  For every \<open>maxResults\<close> that is at least zero (infinity included)
  \<open>findCrossPairs\<close> returns at most \<open>maxResults\<close> opportunities, and with an IEEE
  rounding its result is in descending order of \<open>netPct\<close>.
\<close>

theorem finder_bounds:
  "length (findTriangles rnd pairs B fee) \<le> 2 * length (buildAssetEntries pairs B) \<and>
   (distinct (map fst data) \<and> noColon B \<longrightarrow>
      length (findTriangles rnd (parseAllPairs toNumber data) B fee) \<le>
        2 * length (bridgeableAssets (parseAllPairs toNumber data) B)) \<and>
   (num_le (Fin 0) maxResults \<longrightarrow>
      num_le (Fin (real (length (findCrossPairs rnd pairs B fee maxResults)))) maxResults) \<and>
   (ieeeRounding rnd \<longrightarrow> descending (findCrossPairs rnd pairs B fee maxResults))"
proof (intro conjI impI)
  show "length (findTriangles rnd pairs B fee) \<le> 2 * length (buildAssetEntries pairs B)"
    by (rule length_findTriangles)
  show "num_le (Fin (real (length (findCrossPairs rnd pairs B fee maxResults)))) maxResults"
    if "num_le (Fin 0) maxResults"
    using that by (rule length_findCrossPairs)
  show "descending (findCrossPairs rnd pairs B fee maxResults)" if "ieeeRounding rnd"
    using that by (rule findCrossPairs_descending)
  show "length (findTriangles rnd (parseAllPairs toNumber data) B fee) \<le>
        2 * length (bridgeableAssets (parseAllPairs toNumber data) B)"
    if "distinct (map fst data) \<and> noColon B"
  proof -
    from that have "length (buildAssetEntries (parseAllPairs toNumber data) B) \<le>
         length (bridgeableAssets (parseAllPairs toNumber data) B)"
      by (intro snapshot_entries_le_bridgeable) simp_all
    with length_findTriangles [of rnd "parseAllPairs toNumber data" B fee]
    show ?thesis by linarith
  qed
qed

lemma smallSnapshot_counts:
  "distinct (map fst smallSnapshot) \<and>
   bridgeableAssets (parseAllPairs exampleNumber smallSnapshot) ''USDT'' = [''X'', ''Y''] \<and>
   length (findTriangles Fin (parseAllPairs exampleNumber smallSnapshot) ''USDT'' (Fin 0)) = 4 \<and>
   length (findCrossPairs Fin (parseAllPairs exampleNumber smallSnapshot) ''USDT'' (Fin 0) (Fin 1)) = 1"
  by code_simp

theorem finder_bounds_witness:
  "distinct (map fst smallSnapshot) \<and> noColon ''USDT'' \<and> ieeeRounding Fin \<and>
   bridgeableAssets (parseAllPairs exampleNumber smallSnapshot) ''USDT'' = [''X'', ''Y''] \<and>
   length (findTriangles Fin (parseAllPairs exampleNumber smallSnapshot) ''USDT'' (Fin 0)) = 4 \<and>
   length (findTriangles Fin (parseAllPairs exampleNumber smallSnapshot) ''USDT'' (Fin 0)) \<le>
     2 * length (bridgeableAssets (parseAllPairs exampleNumber smallSnapshot) ''USDT'') \<and>
   length (findCrossPairs Fin (parseAllPairs exampleNumber smallSnapshot) ''USDT'' (Fin 0) (Fin 1)) = 1 \<and>
   num_le (Fin 0) (Fin 1) \<and>
   num_le
     (Fin (real (length
        (findCrossPairs Fin (parseAllPairs exampleNumber smallSnapshot) ''USDT'' (Fin 0) (Fin 1)))))
     (Fin 1) \<and>
   descending (findCrossPairs Fin (parseAllPairs exampleNumber smallSnapshot) ''USDT'' (Fin 0) (Fin 1))"
proof -
  note t = finder_bounds [of Fin "parseAllPairs exampleNumber smallSnapshot" "''USDT''" "Fin 0"
      smallSnapshot exampleNumber "Fin 1"]
  have c: "noColon ''USDT''" by (simp add: noColon_def)
  from t smallSnapshot_counts c have
    "length (findTriangles Fin (parseAllPairs exampleNumber smallSnapshot) ''USDT'' (Fin 0)) \<le>
     2 * length (bridgeableAssets (parseAllPairs exampleNumber smallSnapshot) ''USDT'')"
    by blast
  moreover from t ieeeRounding_Fin have
    "descending (findCrossPairs Fin (parseAllPairs exampleNumber smallSnapshot) ''USDT'' (Fin 0) (Fin 1))"
    by blast
  moreover have n: "num_le (Fin 0) (Fin 1)" by (simp add: num_le_def)
  moreover from t n have
    "num_le
       (Fin (real (length
          (findCrossPairs Fin (parseAllPairs exampleNumber smallSnapshot) ''USDT'' (Fin 0) (Fin 1)))))
       (Fin 1)"
    by blast
  ultimately show ?thesis using smallSnapshot_counts c ieeeRounding_Fin by blast
qed

text \<open>
  C7 as stated fails for a bridge ticker that holds the separator of the index keys.
  In the snapshot of the symbols \<open>Z:USDTIRT\<close>, \<open>AIRT\<close> and \<open>A:ZUSDT\<close> no asset has a
  pair quoted in the bridge currency \<open>Z:USDT\<close>, so that \<open>N = 0\<close>, and \<open>findTriangles\<close>
  returns two opportunities. It also fails for a negative \<open>maxResults\<close>, which
  \<^verbatim>\<open>slice\<close> counts from the end of the array: of the two cross-pair opportunities of
  two assets, \<open>maxResults = -1\<close> leaves one.
\<close>

theorem finder_bounds_counterexample:
  "distinct (map fst colonSnapshot) \<and>
   bridgeableAssets (parseAllPairs exampleNumber colonSnapshot) ''Z:USDT'' = [] \<and>
   length (findTriangles Fin (parseAllPairs exampleNumber colonSnapshot) ''Z:USDT'' (Fin 0)) = 2 \<and>
   length (findCrossPairs Fin twoAssets ''USDT'' (Fin 0) (Fin (- 1))) = 1"
  by code_simp

subsection \<open>The combined finder\<close>

lemma sub_self_not_gt:
  assumes "soundRounding rnd"
  shows "\<not> num_gt (num_sub rnd v v) (Fin 0)"
  using assms by (cases v) (simp_all add: soundRounding_def num_gt_def)

lemma stable_sortBy_netPct:
  assumes "soundRounding rnd"
  shows "filter (\<lambda>x. netPct x = v)
           (sortBy (\<lambda>a b. num_sub rnd (netPct b) (netPct a)) (xs :: Opportunity list)) =
         filter (\<lambda>x. netPct x = v) xs"
proof (rule filter_sortBy, intro ballI impI)
  fix x y :: Opportunity
  assume "x \<in> set xs" "y \<in> set xs" "netPct x = v" "netPct y = v"
  with sub_self_not_gt [OF assms, of v]
  show "\<not> num_gt (num_sub rnd (netPct y) (netPct x)) (Fin 0)" by simp
qed

lemma triangle_key:
  assumes r: "ieeeRounding rnd" and f: "isFinite (num_mul rnd (Fin 3) fee)"
    and x: "x \<in> set (findTriangles rnd pairs B fee)"
  shows "orderedKey rnd (netPct x)"
  using x
proof (rule in_findTriangles)
  let ?T = "num_mul rnd (Fin 3) fee"
  from f obtain t where t: "?T = Fin t" by (cases ?T) auto
  from r have n: "\<forall>x. rnd x \<noteq> NaN" by (simp add: ieeeRounding_def soundRounding_def)
  fix bridge e
  assume "x \<in> set (pushIf (cwCandidate rnd B ?T bridge e)) \<or>
          x \<in> set (pushIf (ccwCandidate rnd B ?T bridge e))"
  then consider "x = cwCandidate rnd B ?T bridge e" "isFinite (rate x)"
    | "x = ccwCandidate rnd B ?T bridge e" "isFinite (rate x)"
    by (auto simp: pushIf_iff)
  then have "netPct x = num_sub rnd (grossPct x) (Fin t) \<and> grossPct x \<noteq> NaN"
  proof cases
    case 1
    from gross_not_NaN [OF n 1(2)] 1(1) have "grossPct x \<noteq> NaN" by (simp add: cw_gross)
    with 1(1) t show ?thesis by (simp add: cwCandidate_fee)
  next
    case 2
    from gross_not_NaN [OF n 2(2)] 2(1) have "grossPct x \<noteq> NaN" by (simp add: ccw_gross)
    with 2(1) t show ?thesis by (simp add: ccwCandidate_fee)
  qed
  with finite_fee_key [OF r, of "grossPct x" t] show ?thesis by simp
qed

lemma cross_key:
  assumes r: "ieeeRounding rnd" and f: "isFinite (num_mul rnd (Fin 4) fee)"
    and x: "x \<in> set (crossResults rnd pairs B fee)"
  shows "orderedKey rnd (netPct x)"
  using x
proof (rule in_crossResults)
  let ?T = "num_mul rnd (Fin 4) fee"
  from f obtain t where t: "?T = Fin t" by (cases ?T) auto
  from r have n: "\<forall>x. rnd x \<noteq> NaN" by (simp add: ieeeRounding_def soundRounding_def)
  fix s b assume "x \<in> set (crossStep rnd B ?T s b)"
  then have "assetE s \<noteq> assetE b \<and> x = crossCandidate rnd B ?T s b \<and>
      \<not> num_lt (netPct x) (Fin (- 5)) \<and> isFinite (rate x) \<and>
      \<not> num_le (maxVolumeIRT x) (Fin 0)"
    by (rule in_crossStep_iff [THEN iffD1])
  then have c: "x = crossCandidate rnd B ?T s b" and fr: "isFinite (rate x)" by blast+
  from gross_not_NaN [OF n fr] c have "grossPct x \<noteq> NaN" by (simp add: cross_gross)
  moreover from c t have "netPct x = num_sub rnd (grossPct x) (Fin t)"
    by (simp add: crossCandidate_fee)
  ultimately show ?thesis using finite_fee_key [OF r, of "grossPct x" t] by simp
qed

text \<open>
  The order of the combined result when a total fee is not finite. The sort keys are
  then infinite or NaN. Either no two of them compare, and any arrangement is in
  descending order; or the keys of the triangles are ordered and those of the
  cross-pair results are all NaN, and the sort leaves the latter behind the former.
\<close>

lemma sorted_wrt_all:
  "(\<forall>x \<in> set xs. \<forall>y \<in> set xs. P x y) \<Longrightarrow> sorted_wrt P xs"
  by (induction xs) simp_all

lemma descending_incomparable:
  assumes "\<forall>x \<in> set xs. \<forall>y \<in> set xs. \<not> num_lt (netPct x) (netPct y)"
  shows "descending (sortBy cmp xs)"
  unfolding descending_def using assms by (intro sorted_wrt_all) (simp add: set_sortBy)

lemma insertBy_front:
  assumes "\<forall>y \<in> set ys. \<not> num_gt (cmp x y) (Fin 0)"
  shows "insertBy cmp x ys = x # ys"
  using assms by (cases ys) simp_all

lemma sortBy_unordered:
  assumes "\<forall>x \<in> set ys. \<forall>y \<in> set ys. \<not> num_gt (cmp x y) (Fin 0)"
  shows "sortBy cmp ys = ys"
  using assms
proof (induction ys)
  case Nil
  show ?case by (simp add: sortBy_def)
next
  case (Cons y ys)
  then have "sortBy cmp ys = ys" by simp
  moreover from Cons.prems have "insertBy cmp y ys = y # ys"
    by (intro insertBy_front) simp
  ultimately show ?case by (simp add: sortBy_def)
qed

lemma insertBy_append:
  assumes "\<forall>y \<in> set ys. \<not> num_gt (cmp x y) (Fin 0)"
  shows "insertBy cmp x (as @ ys) = insertBy cmp x as @ ys"
proof (induction as)
  case Nil
  from assms show ?case by (simp add: insertBy_front)
next
  case (Cons a as)
  then show ?case by simp
qed

lemma sortBy_append:
  assumes "\<forall>x. \<forall>y \<in> set ys. \<not> num_gt (cmp x y) (Fin 0)"
  shows "sortBy cmp (xs @ ys) = sortBy cmp xs @ ys"
proof (induction xs)
  case Nil
  from assms have "sortBy cmp ys = ys" by (intro sortBy_unordered) simp
  then show ?case by (simp add: sortBy_def)
next
  case (Cons x xs)
  have "sortBy cmp ((x # xs) @ ys) = insertBy cmp x (sortBy cmp (xs @ ys))"
    by (simp add: sortBy_def)
  also have "\<dots> = insertBy cmp x (sortBy cmp xs @ ys)" by (simp only: Cons.IH)
  also from assms have "\<dots> = insertBy cmp x (sortBy cmp xs) @ ys"
    by (intro insertBy_append) simp
  also have "\<dots> = sortBy cmp (x # xs) @ ys" by (simp add: sortBy_def)
  finally show ?case .
qed

lemma descending_NaN_tail:
  assumes r: "ieeeRounding rnd"
    and xs: "\<forall>x \<in> set xs. orderedKey rnd (netPct x)"
    and ys: "\<forall>y \<in> set ys. netPct y = NaN"
  shows "descending (sortBy (\<lambda>a b. num_sub rnd (netPct b) (netPct a)) (xs @ ys))"
proof -
  let ?cmp = "\<lambda>a b :: Opportunity. num_sub rnd (netPct b) (netPct a)"
  have "\<forall>x. \<forall>y \<in> set ys. \<not> num_gt (?cmp x y) (Fin 0)"
    using ys by (simp add: num_gt_def)
  then have e: "sortBy ?cmp (xs @ ys) = sortBy ?cmp xs @ ys" by (rule sortBy_append)
  from r xs have 1: "descending (sortBy ?cmp xs)" by (intro descending_sortBy) simp_all
  from ys have 2: "sorted_wrt (\<lambda>a b. \<not> num_lt (netPct a) (netPct b)) ys"
    by (intro sorted_wrt_all) simp
  from ys have 3: "\<forall>a \<in> set (sortBy ?cmp xs). \<forall>b \<in> set ys. \<not> num_lt (netPct a) (netPct b)"
    using num_lt_not_NaN by blast
  from 1 2 3 show ?thesis unfolding e descending_def sorted_wrt_append by blast
qed

lemma nonfinite_fee_keys:
  assumes "\<not> isFinite T"
  shows "\<not> num_lt (num_sub rnd g T) (num_sub rnd h T)"
  using assms by (cases T; cases g; cases h) simp_all

lemma nonfinite_fee_product:
  assumes "\<not> isFinite fee" and "0 < k"
  shows "num_mul rnd (Fin k) fee = fee"
  using assms by (cases fee) (simp_all add: positive_def)

lemma descending_same_nonfinite_fee:
  assumes n: "\<not> isFinite (num_mul rnd (Fin 3) fee)"
    and e: "num_mul rnd (Fin 4) fee = num_mul rnd (Fin 3) fee"
  shows "descending (findAllOpportunities rnd pairs B fee)"
  unfolding findAllOpportunities_def Let_def
proof (rule descending_incomparable, intro ballI)
  let ?T = "num_mul rnd (Fin 3) fee"
  have k: "netPct x = num_sub rnd (grossPct x) ?T"
    if "x \<in> set (findTriangles rnd pairs B fee @ findCrossPairs rnd pairs B fee (Fin 200))" for x
  proof -
    from that consider "x \<in> set (findTriangles rnd pairs B fee)"
      | "x \<in> set (crossResults rnd pairs B fee)"
      using in_findCrossPairs by fastforce
    then show ?thesis
    proof cases
      case 1
      from triangle_fee [OF this] show ?thesis by simp
    next
      case 2
      from cross_fee [OF this] e show ?thesis by simp
    qed
  qed
  fix x y
  assume "x \<in> set (findTriangles rnd pairs B fee @ findCrossPairs rnd pairs B fee (Fin 200))"
    and "y \<in> set (findTriangles rnd pairs B fee @ findCrossPairs rnd pairs B fee (Fin 200))"
  then have "netPct x = num_sub rnd (grossPct x) ?T" "netPct y = num_sub rnd (grossPct y) ?T"
    using k by blast+
  with nonfinite_fee_keys [OF n, of rnd "grossPct x" "grossPct y"]
  show "\<not> num_lt (netPct x) (netPct y)" by simp
qed

lemma descending_nonfinite_fee:
  assumes "\<not> isFinite fee"
  shows "descending (findAllOpportunities rnd pairs B fee)"
proof (rule descending_same_nonfinite_fee)
  from assms have 3: "num_mul rnd (Fin 3) fee = fee" by (intro nonfinite_fee_product) simp_all
  from assms have 4: "num_mul rnd (Fin 4) fee = fee" by (intro nonfinite_fee_product) simp_all
  from 3 assms show "\<not> isFinite (num_mul rnd (Fin 3) fee)" by simp
  from 3 4 show "num_mul rnd (Fin 4) fee = num_mul rnd (Fin 3) fee" by simp
qed

lemma monotone_overflow:
  assumes s: "soundRounding rnd" and m: "monotoneRounding rnd"
    and n: "\<not> isFinite (rnd (3 * x))"
  shows "rnd (4 * x) = rnd (3 * x)"
proof -
  from s have nn: "rnd (3 * x) \<noteq> NaN" "rnd (4 * x) \<noteq> NaN" by (simp_all add: soundRounding_def)
  show ?thesis
  proof (cases "0 \<le> x")
    case True
    with s have "num_le (Fin 0) (rnd (3 * x))" by (simp add: soundRounding_def)
    with n nn have 3: "rnd (3 * x) = PInf" by (cases "rnd (3 * x)") (simp_all add: num_le_def)
    from True have "3 * x \<le> 4 * x" by simp
    with m have "num_le (rnd (3 * x)) (rnd (4 * x))" unfolding monotoneRounding_def by blast
    with 3 have "rnd (4 * x) = PInf" by (cases "rnd (4 * x)") (simp_all add: num_le_def)
    with 3 show ?thesis by simp
  next
    case False
    with s have "num_le (rnd (3 * x)) (Fin 0)" by (simp add: soundRounding_def)
    with n nn have 3: "rnd (3 * x) = NInf" by (cases "rnd (3 * x)") (simp_all add: num_le_def)
    from False have "4 * x \<le> 3 * x" by simp
    with m have "num_le (rnd (4 * x)) (rnd (3 * x))" unfolding monotoneRounding_def by blast
    with 3 have "rnd (4 * x) = NInf" by (cases "rnd (4 * x)") (simp_all add: num_le_def)
    with 3 show ?thesis by simp
  qed
qed

lemma gross_above:
  assumes s: "soundRounding rnd" and m: "monotoneRounding rnd" and r: "0 \<le> r"
  shows "num_mul rnd (num_sub rnd (Fin r) (Fin 1)) (Fin 100) \<noteq> NInf"
proof -
  from r have "- 1 \<le> r - 1" by simp
  with m have "num_le (rnd (- 1)) (rnd (r - 1))" unfolding monotoneRounding_def by blast
  with m have 1: "num_le (Fin (- 1)) (rnd (r - 1))" by (simp add: monotoneRounding_def)
  show ?thesis
  proof (cases "rnd (r - 1)")
    case (Fin y)
    with 1 have "- 100 \<le> y * 100" by (simp add: num_le_def)
    with m have "num_le (rnd (- 100)) (rnd (y * 100))" unfolding monotoneRounding_def by blast
    with m have "num_le (Fin (- 100)) (rnd (y * 100))" by (simp add: monotoneRounding_def)
    then have "rnd (y * 100) \<noteq> NInf" by (auto simp: num_le_def)
    with Fin show ?thesis by simp
  next
    case PInf
    then show ?thesis by (simp add: positive_def)
  next
    case NInf
    with 1 show ?thesis by (simp add: num_le_def)
  next
    case NaN
    with 1 show ?thesis by (simp add: num_le_def)
  qed
qed

lemma num_mul_nonneg:
  assumes "soundRounding rnd" and "num_le (Fin 0) a" and "num_le (Fin 0) b"
    and "num_mul rnd a b = Fin r"
  shows "0 \<le> r"
proof (cases "\<exists>x y. a = Fin x \<and> b = Fin y")
  case True
  then obtain x y where ab: "a = Fin x" "b = Fin y" by blast
  with assms(2,3) have "0 \<le> x * y" by (simp add: num_le_def)
  with assms(1) have "num_le (Fin 0) (rnd (x * y))" by (simp add: soundRounding_def)
  with assms(4) ab show ?thesis by (simp add: num_le_def)
next
  case False
  with assms(4) show ?thesis by (cases a; cases b) (simp_all split: if_splits)
qed

lemma cross_rate_nonneg:
  assumes s: "soundRounding rnd"
    and "validPair (irt es)" and "validPair (baseE es)"
    and "validPair (irt eb)" and "validPair (baseE eb)"
    and r: "rate (crossCandidate rnd B T (withRatio rnd es) (withRatio rnd eb)) = Fin r"
  shows "0 \<le> r"
proof -
  from assms(2) obtain sa where sa: "bestAsk (irt es) = Fin sa" "0 < sa"
    by (elim validPair_elim)
  from assms(3) obtain sb where sb: "bestBid (baseE es) = Fin sb" "0 < sb"
    by (elim validPair_elim)
  from assms(4) obtain bb where bb: "bestBid (irt eb) = Fin bb" "0 < bb"
    by (elim validPair_elim)
  from assms(5) obtain ba where ba: "bestAsk (baseE eb) = Fin ba" "0 < ba"
    by (elim validPair_elim)
  have 1: "num_le (Fin 0) (sellRatio (withRatio rnd es))"
    unfolding withRatio_def using sound_div_nonneg [OF s, of sb sa] sa sb by simp
  have 2: "num_le (Fin 0) (buyRatio (withRatio rnd eb))"
    unfolding withRatio_def using sound_div_nonneg [OF s, of bb ba] bb ba by simp
  have "rate (crossCandidate rnd B T (withRatio rnd es) (withRatio rnd eb)) =
      num_mul rnd (sellRatio (withRatio rnd es)) (buyRatio (withRatio rnd eb))"
    by (simp add: crossCandidate_def Let_def)
  with r have "num_mul rnd (sellRatio (withRatio rnd es)) (buyRatio (withRatio rnd eb)) = Fin r"
    by simp
  with s 1 2 show ?thesis by (rule num_mul_nonneg)
qed

lemma crossResults_gross:
  assumes s: "soundRounding rnd" and m: "monotoneRounding rnd"
    and v: "\<forall>p \<in> set pairs. validPair p"
    and x: "x \<in> set (crossResults rnd pairs B fee)"
  shows "grossPct x \<noteq> NInf"
  using x
proof (rule in_crossResults)
  let ?T = "num_mul rnd (Fin 4) fee"
  fix s b
  assume s': "s \<in> set (map (withRatio rnd) (buildAssetEntries pairs B))"
    and b': "b \<in> set (map (withRatio rnd) (buildAssetEntries pairs B))"
    and c: "x \<in> set (crossStep rnd B ?T s b)"
  from s' obtain es where es: "es \<in> set (buildAssetEntries pairs B)" "s = withRatio rnd es" by auto
  from b' obtain eb where eb: "eb \<in> set (buildAssetEntries pairs B)" "b = withRatio rnd eb" by auto
  from es eb v have vs: "validPair (irt es)" "validPair (baseE es)"
      "validPair (irt eb)" "validPair (baseE eb)"
    using in_buildAssetEntries(1,2) by auto
  from c have "assetE s \<noteq> assetE b \<and> x = crossCandidate rnd B ?T s b \<and>
      \<not> num_lt (netPct x) (Fin (- 5)) \<and> isFinite (rate x) \<and>
      \<not> num_le (maxVolumeIRT x) (Fin 0)"
    by (rule in_crossStep_iff [THEN iffD1])
  then have xc: "x = crossCandidate rnd B ?T s b" and f: "isFinite (rate x)" by blast+
  from f obtain r where r: "rate x = Fin r" by (cases "rate x") auto
  with xc es(2) eb(2)
  have "rate (crossCandidate rnd B ?T (withRatio rnd es) (withRatio rnd eb)) = Fin r" by simp
  with s vs have "0 \<le> r" by (rule cross_rate_nonneg)
  with s m have "num_mul rnd (num_sub rnd (Fin r) (Fin 1)) (Fin 100) \<noteq> NInf"
    by (rule gross_above)
  moreover from xc r have "grossPct x = num_mul rnd (num_sub rnd (Fin r) (Fin 1)) (Fin 100)"
    using cross_gross [of rnd B ?T s b] by simp
  ultimately show ?thesis by simp
qed

lemma cross_shape:
  assumes r: "\<forall>x. rnd x \<noteq> NaN" and x: "x \<in> set (crossResults rnd pairs B fee)"
  shows "netPct x = num_sub rnd (grossPct x) (num_mul rnd (Fin 4) fee) \<and> grossPct x \<noteq> NaN \<and>
         \<not> num_lt (netPct x) (Fin (- 5))"
  using x
proof (rule in_crossResults)
  let ?T = "num_mul rnd (Fin 4) fee"
  fix s b assume "x \<in> set (crossStep rnd B ?T s b)"
  then have "assetE s \<noteq> assetE b \<and> x = crossCandidate rnd B ?T s b \<and>
      \<not> num_lt (netPct x) (Fin (- 5)) \<and> isFinite (rate x) \<and>
      \<not> num_le (maxVolumeIRT x) (Fin 0)"
    by (rule in_crossStep_iff [THEN iffD1])
  then have c: "x = crossCandidate rnd B ?T s b" and f: "isFinite (rate x)"
    and k: "\<not> num_lt (netPct x) (Fin (- 5))"
    by blast+
  from gross_not_NaN [OF r f] c have "grossPct x \<noteq> NaN" by (simp add: cross_gross)
  with c k show ?thesis by (simp add: crossCandidate_fee)
qed

lemma cross_key_overflow:
  assumes r: "\<forall>x. rnd x \<noteq> NaN" and t: "num_mul rnd (Fin 4) fee = PInf"
    and x: "x \<in> set (crossResults rnd pairs B fee)"
  shows "netPct x = NaN"
proof -
  from cross_shape [OF r x] t
  have k: "netPct x = num_sub rnd (grossPct x) PInf" by simp
  from cross_shape [OF r x] have "\<not> num_lt (netPct x) (Fin (- 5))" by blast
  with k have "\<not> num_lt (num_sub rnd (grossPct x) PInf) (Fin (- 5))" by simp
  with k show ?thesis by (cases "grossPct x") (simp_all split: if_splits)
qed

lemma cross_key_underflow:
  assumes s: "soundRounding rnd" and m: "monotoneRounding rnd"
    and v: "\<forall>p \<in> set pairs. validPair p"
    and t: "num_mul rnd (Fin 4) fee = NInf"
    and x: "x \<in> set (crossResults rnd pairs B fee)"
  shows "netPct x = PInf"
proof -
  from s have r: "\<forall>x. rnd x \<noteq> NaN" by (simp add: soundRounding_def)
  from cross_shape [OF r x] t
  have "netPct x = num_sub rnd (grossPct x) NInf" "grossPct x \<noteq> NaN" by simp_all
  moreover from s m v x have "grossPct x \<noteq> NInf" by (rule crossResults_gross)
  ultimately show ?thesis by (cases "grossPct x") simp_all
qed

lemma descending_finite_fees:
  assumes r: "ieeeRounding rnd" and 3: "isFinite (num_mul rnd (Fin 3) fee)"
    and 4: "isFinite (num_mul rnd (Fin 4) fee)"
  shows "descending (findAllOpportunities rnd pairs B fee)"
proof -
  have "\<forall>x \<in> set (findTriangles rnd pairs B fee @ findCrossPairs rnd pairs B fee (Fin 200)).
      orderedKey rnd (netPct x)"
  proof
    fix x assume "x \<in> set (findTriangles rnd pairs B fee @ findCrossPairs rnd pairs B fee (Fin 200))"
    then consider "x \<in> set (findTriangles rnd pairs B fee)"
      | "x \<in> set (crossResults rnd pairs B fee)"
      using in_findCrossPairs by fastforce
    then show "orderedKey rnd (netPct x)"
      using r 3 4 triangle_key cross_key by cases blast+
  qed
  then show ?thesis
    unfolding findAllOpportunities_def Let_def using r
    by (intro descending_sortBy) blast+
qed

lemma descending_valid_pairs:
  assumes r: "ieeeRounding rnd" and m: "monotoneRounding rnd"
    and v: "\<forall>p \<in> set pairs. validPair p"
  shows "descending (findAllOpportunities rnd pairs B fee)"
proof (cases "isFinite fee")
  case False
  then show ?thesis by (rule descending_nonfinite_fee)
next
  case True
  then obtain x where fee: "fee = Fin x" by (cases fee) auto
  from r have s: "soundRounding rnd" by (simp add: ieeeRounding_def)
  then have n: "\<forall>x. rnd x \<noteq> NaN" by (simp add: soundRounding_def)
  let ?ts = "findTriangles rnd pairs B fee"
  let ?cs = "findCrossPairs rnd pairs B fee (Fin 200)"
  show ?thesis
  proof (cases "isFinite (num_mul rnd (Fin 3) fee)")
    case False
    moreover from False fee have "num_mul rnd (Fin 4) fee = num_mul rnd (Fin 3) fee"
      using monotone_overflow [OF s m, of x] by simp
    ultimately show ?thesis by (rule descending_same_nonfinite_fee)
  next
    case 3: True
    have ts: "\<forall>x \<in> set ?ts. orderedKey rnd (netPct x)"
      using r 3 triangle_key by blast
    from n fee have nn: "num_mul rnd (Fin 4) fee \<noteq> NaN" by simp
    show ?thesis
    proof (cases "num_mul rnd (Fin 4) fee")
      case (Fin t)
      then have "isFinite (num_mul rnd (Fin 4) fee)" by simp
      with r 3 show ?thesis by (rule descending_finite_fees)
    next
      case PInf
      have "\<forall>y \<in> set ?cs. netPct y = NaN"
        using cross_key_overflow [OF n PInf] in_findCrossPairs by blast
      with r ts show ?thesis
        unfolding findAllOpportunities_def Let_def by (rule descending_NaN_tail)
    next
      case NInf
      have "\<forall>y \<in> set ?cs. netPct y = PInf"
        using cross_key_underflow [OF s m v NInf] in_findCrossPairs by blast
      then have "\<forall>y \<in> set ?cs. orderedKey rnd (netPct y)" by (simp add: orderedKey_def)
      with ts have "\<forall>x \<in> set (?ts @ ?cs). orderedKey rnd (netPct x)" by auto
      then show ?thesis
        unfolding findAllOpportunities_def Let_def using r
        by (intro descending_sortBy) blast+
    next
      case NaN
      with nn show ?thesis by simp
    qed
  qed
qed

text \<open>What the cap of the cross-pair finder keeps: a prefix of the sorted candidates.\<close>

lemma monotoneRounding_Fin: "monotoneRounding Fin"
  by (simp add: monotoneRounding_def num_le_def)

lemma findCrossPairs_prefix:
  "\<exists>n. findCrossPairs rnd pairs B fee m =
     take n (sortBy (\<lambda>a b. num_sub rnd (netPct b) (netPct a)) (crossResults rnd pairs B fee))"
  unfolding findCrossPairs_def by (rule sliceTo_take)

lemma findCrossPairs_subset:
  "mset (findCrossPairs rnd pairs B fee m) \<subseteq># mset (crossResults rnd pairs B fee)"
proof -
  let ?s = "sortBy (\<lambda>a b. num_sub rnd (netPct b) (netPct a)) (crossResults rnd pairs B fee)"
  obtain n where n: "findCrossPairs rnd pairs B fee m = take n ?s"
    using findCrossPairs_prefix by blast
  have "mset (take n ?s) \<subseteq># mset (take n ?s) + mset (drop n ?s)" by simp
  also have "\<dots> = mset ?s" by (simp only: mset_append [symmetric] append_take_drop_id)
  also have "\<dots> = mset (crossResults rnd pairs B fee)" by (rule mset_sortBy)
  finally show ?thesis using n by simp
qed

lemma findCrossPairs_best:
  assumes "ieeeRounding rnd"
    and x: "x \<in> set (findCrossPairs rnd pairs B fee m)"
    and y: "y \<in># mset (crossResults rnd pairs B fee) - mset (findCrossPairs rnd pairs B fee m)"
  shows "\<not> num_lt (netPct x) (netPct y)"
proof -
  let ?s = "sortBy (\<lambda>a b. num_sub rnd (netPct b) (netPct a)) (crossResults rnd pairs B fee)"
  obtain n where n: "findCrossPairs rnd pairs B fee m = take n ?s"
    using findCrossPairs_prefix by blast
  have "mset (crossResults rnd pairs B fee) = mset ?s" by (simp only: mset_sortBy)
  also have "\<dots> = mset (take n ?s) + mset (drop n ?s)"
    by (simp only: mset_append [symmetric] append_take_drop_id)
  finally have "mset (crossResults rnd pairs B fee) - mset (take n ?s) = mset (drop n ?s)"
    by simp
  with y n have y': "y \<in> set (drop n ?s)" by simp
  from x n have x': "x \<in> set (take n ?s)" by simp
  from assms(1) have "descending ?s" by (intro descending_sortBy crossResults_keys)
  then have "sorted_wrt (\<lambda>a b. \<not> num_lt (netPct a) (netPct b)) (take n ?s @ drop n ?s)"
    by (simp only: descending_def append_take_drop_id)
  with x' y' show ?thesis unfolding sorted_wrt_append by blast
qed

lemma length_default_cap:
  "length (findCrossPairs rnd pairs B fee (Fin 200)) =
     min 200 (length (crossResults rnd pairs B fee))"
proof -
  have "sliceTo (Fin 200) xs = take 200 xs" for xs :: "Opportunity list"
    using sliceTo_count [of 200 xs] by simp
  then show ?thesis by (simp add: findCrossPairs_def length_sortBy)
qed

text \<open>
  C3, as amended. \<open>findAllOpportunities\<close> returns a rearrangement of the triangle
  results followed by the results of \<open>findCrossPairs\<close> at its default cap of 200:
  nothing else is dropped or added. With a sound rounding, opportunities of equal
  \<open>netPct\<close> keep the order they have in that concatenation. The result is in descending
  order of \<open>netPct\<close>: for arbitrary pairs with an IEEE rounding when the two total fees
  are finite, for arbitrary pairs and roundings when the fee rate is not finite, and
  for every fee rate when the pairs satisfy the invariant of market pairs and the
  rounding is an IEEE rounding that is monotone. The cap, at 200 as at any other
  \<open>maxResults\<close>, keeps candidates of the double loop only, all of them up to 200, and
  with an IEEE rounding the best of them: no candidate that it drops has a greater
  \<open>netPct\<close> than one that it keeps.
\<close>

theorem all_opportunities_sorted:
  "mset (findAllOpportunities rnd pairs B fee) =
     mset (findTriangles rnd pairs B fee) + mset (findCrossPairs rnd pairs B fee (Fin 200)) \<and>
   length (findAllOpportunities rnd pairs B fee) =
     length (findTriangles rnd pairs B fee) + length (findCrossPairs rnd pairs B fee (Fin 200)) \<and>
   (soundRounding rnd \<longrightarrow>
      (\<forall>v. filter (\<lambda>x. netPct x = v) (findAllOpportunities rnd pairs B fee) =
           filter (\<lambda>x. netPct x = v)
             (findTriangles rnd pairs B fee @ findCrossPairs rnd pairs B fee (Fin 200)))) \<and>
   (ieeeRounding rnd \<and> isFinite (num_mul rnd (Fin 3) fee) \<and>
    isFinite (num_mul rnd (Fin 4) fee) \<longrightarrow>
      descending (findAllOpportunities rnd pairs B fee)) \<and>
   (\<not> isFinite fee \<longrightarrow> descending (findAllOpportunities rnd pairs B fee)) \<and>
   (ieeeRounding rnd \<and> monotoneRounding rnd \<and> (\<forall>p \<in> set pairs. validPair p) \<longrightarrow>
      descending (findAllOpportunities rnd pairs B fee)) \<and>
   mset (findCrossPairs rnd pairs B fee maxResults) \<subseteq># mset (crossResults rnd pairs B fee) \<and>
   length (findCrossPairs rnd pairs B fee (Fin 200)) =
     min 200 (length (crossResults rnd pairs B fee)) \<and>
   (ieeeRounding rnd \<longrightarrow>
      (\<forall>x \<in> set (findCrossPairs rnd pairs B fee maxResults).
         \<forall>y \<in># mset (crossResults rnd pairs B fee) -
                 mset (findCrossPairs rnd pairs B fee maxResults).
           \<not> num_lt (netPct x) (netPct y)))"
proof (intro conjI impI allI ballI)
  show "mset (findAllOpportunities rnd pairs B fee) =
     mset (findTriangles rnd pairs B fee) + mset (findCrossPairs rnd pairs B fee (Fin 200))"
    by (simp add: findAllOpportunities_def Let_def mset_sortBy)
  show "length (findAllOpportunities rnd pairs B fee) =
     length (findTriangles rnd pairs B fee) + length (findCrossPairs rnd pairs B fee (Fin 200))"
    by (simp add: findAllOpportunities_def Let_def length_sortBy)
  show "mset (findCrossPairs rnd pairs B fee maxResults) \<subseteq># mset (crossResults rnd pairs B fee)"
    by (rule findCrossPairs_subset)
  show "length (findCrossPairs rnd pairs B fee (Fin 200)) =
     min 200 (length (crossResults rnd pairs B fee))"
    by (rule length_default_cap)
next
  fix v assume "soundRounding rnd"
  then show "filter (\<lambda>x. netPct x = v) (findAllOpportunities rnd pairs B fee) =
      filter (\<lambda>x. netPct x = v)
        (findTriangles rnd pairs B fee @ findCrossPairs rnd pairs B fee (Fin 200))"
    unfolding findAllOpportunities_def Let_def by (rule stable_sortBy_netPct)
next
  assume "ieeeRounding rnd \<and> isFinite (num_mul rnd (Fin 3) fee) \<and>
      isFinite (num_mul rnd (Fin 4) fee)"
  then show "descending (findAllOpportunities rnd pairs B fee)"
    by (intro descending_finite_fees) blast+
next
  assume "\<not> isFinite fee"
  then show "descending (findAllOpportunities rnd pairs B fee)"
    by (rule descending_nonfinite_fee)
next
  assume "ieeeRounding rnd \<and> monotoneRounding rnd \<and> (\<forall>p \<in> set pairs. validPair p)"
  then show "descending (findAllOpportunities rnd pairs B fee)"
    by (intro descending_valid_pairs) blast+
next
  fix x y
  assume "ieeeRounding rnd" and "x \<in> set (findCrossPairs rnd pairs B fee maxResults)"
    and "y \<in># mset (crossResults rnd pairs B fee) - mset (findCrossPairs rnd pairs B fee maxResults)"
  then show "\<not> num_lt (netPct x) (netPct y)" by (rule findCrossPairs_best)
qed

lemma unevenPairs_all:
  "map netPct (findAllOpportunities Fin unevenPairs ''USDT'' (Fin 0)) =
     [Fin 0, Fin 0, Fin 0, Fin 0, Fin (- 75)] \<and>
   map netPct (findTriangles Fin unevenPairs ''USDT'' (Fin 0)) =
     [Fin 0, Fin (- 75), Fin 0, Fin 0] \<and>
   map netPct (findCrossPairs Fin unevenPairs ''USDT'' (Fin 0) (Fin 200)) = [Fin 0]"
  by code_simp

lemma unevenPairs_infinite_fee:
  "map netPct (findAllOpportunities Fin unevenPairs ''USDT'' PInf) = [NInf, NInf, NInf, NInf]"
  by code_simp

lemma rankedPairs_cut:
  "map netPct (crossResults Fin rankedPairs ''USDT'' (Fin 0)) = [Fin 100, Fin 300] \<and>
   map netPct (findCrossPairs Fin rankedPairs ''USDT'' (Fin 0) (Fin 1)) = [Fin 300] \<and>
   hd (crossResults Fin rankedPairs ''USDT'' (Fin 0)) \<in>#
     mset (crossResults Fin rankedPairs ''USDT'' (Fin 0)) -
     mset (findCrossPairs Fin rankedPairs ''USDT'' (Fin 0) (Fin 1))"
  by code_simp

theorem all_opportunities_sorted_witness:
  "soundRounding Fin \<and> ieeeRounding Fin \<and> monotoneRounding Fin \<and>
   list_all validPair unevenPairs \<and>
   isFinite (num_mul Fin (Fin 3) (Fin 0)) \<and> isFinite (num_mul Fin (Fin 4) (Fin 0)) \<and>
   map netPct (findTriangles Fin unevenPairs ''USDT'' (Fin 0)) =
     [Fin 0, Fin (- 75), Fin 0, Fin 0] \<and>
   map netPct (findCrossPairs Fin unevenPairs ''USDT'' (Fin 0) (Fin 200)) = [Fin 0] \<and>
   map netPct (findAllOpportunities Fin unevenPairs ''USDT'' (Fin 0)) =
     [Fin 0, Fin 0, Fin 0, Fin 0, Fin (- 75)] \<and>
   mset (findAllOpportunities Fin unevenPairs ''USDT'' (Fin 0)) =
     mset (findTriangles Fin unevenPairs ''USDT'' (Fin 0)) +
     mset (findCrossPairs Fin unevenPairs ''USDT'' (Fin 0) (Fin 200)) \<and>
   filter (\<lambda>x. netPct x = Fin 0) (findAllOpportunities Fin unevenPairs ''USDT'' (Fin 0)) =
     filter (\<lambda>x. netPct x = Fin 0)
       (findTriangles Fin unevenPairs ''USDT'' (Fin 0) @
        findCrossPairs Fin unevenPairs ''USDT'' (Fin 0) (Fin 200)) \<and>
   descending (findAllOpportunities Fin unevenPairs ''USDT'' (Fin 0)) \<and>
   \<not> isFinite PInf \<and>
   map netPct (findAllOpportunities Fin unevenPairs ''USDT'' PInf) = [NInf, NInf, NInf, NInf] \<and>
   descending (findAllOpportunities Fin unevenPairs ''USDT'' PInf) \<and>
   map netPct (crossResults Fin rankedPairs ''USDT'' (Fin 0)) = [Fin 100, Fin 300] \<and>
   map netPct (findCrossPairs Fin rankedPairs ''USDT'' (Fin 0) (Fin 1)) = [Fin 300] \<and>
   (\<exists>x y. x \<in> set (findCrossPairs Fin rankedPairs ''USDT'' (Fin 0) (Fin 1)) \<and>
      y \<in># mset (crossResults Fin rankedPairs ''USDT'' (Fin 0)) -
            mset (findCrossPairs Fin rankedPairs ''USDT'' (Fin 0) (Fin 1)) \<and>
      netPct x = Fin 300 \<and> netPct y = Fin 100 \<and> \<not> num_lt (netPct x) (netPct y))"
proof -
  note t = all_opportunities_sorted [of Fin unevenPairs "''USDT''" "Fin 0" "Fin 200"]
  note u = all_opportunities_sorted [of Fin unevenPairs "''USDT''" PInf "Fin 200"]
  note c = all_opportunities_sorted [of Fin rankedPairs "''USDT''" "Fin 0" "Fin 1"]
  have f: "isFinite (num_mul Fin (Fin 3) (Fin 0))" "isFinite (num_mul Fin (Fin 4) (Fin 0))"
    by simp_all
  have v: "list_all validPair unevenPairs"
    using unevenPairs_valid by (simp add: list_all_iff)
  from t have 1: "mset (findAllOpportunities Fin unevenPairs ''USDT'' (Fin 0)) =
     mset (findTriangles Fin unevenPairs ''USDT'' (Fin 0)) +
     mset (findCrossPairs Fin unevenPairs ''USDT'' (Fin 0) (Fin 200))"
    by blast
  from t soundRounding_Fin have 2:
    "filter (\<lambda>x. netPct x = Fin 0) (findAllOpportunities Fin unevenPairs ''USDT'' (Fin 0)) =
     filter (\<lambda>x. netPct x = Fin 0)
       (findTriangles Fin unevenPairs ''USDT'' (Fin 0) @
        findCrossPairs Fin unevenPairs ''USDT'' (Fin 0) (Fin 200))"
    by blast
  from t ieeeRounding_Fin f have 3:
    "descending (findAllOpportunities Fin unevenPairs ''USDT'' (Fin 0))"
    by blast
  from t ieeeRounding_Fin monotoneRounding_Fin unevenPairs_valid have
    "descending (findAllOpportunities Fin unevenPairs ''USDT'' (Fin 0))"
    by blast
  have n: "\<not> isFinite PInf" by simp
  with u have 4: "descending (findAllOpportunities Fin unevenPairs ''USDT'' PInf)"
    by blast
  let ?kept = "findCrossPairs Fin rankedPairs ''USDT'' (Fin 0) (Fin 1)"
  let ?all = "crossResults Fin rankedPairs ''USDT'' (Fin 0)"
  from rankedPairs_cut have k: "hd ?kept \<in> set ?kept" "netPct (hd ?kept) = Fin 300"
    by (cases ?kept; simp)+
  from rankedPairs_cut have d: "hd ?all \<in># mset ?all - mset ?kept" "netPct (hd ?all) = Fin 100"
    by (cases ?all; simp)+
  from c ieeeRounding_Fin k(1) d(1) have "\<not> num_lt (netPct (hd ?kept)) (netPct (hd ?all))"
    by blast
  with k d have 5: "\<exists>x y. x \<in> set ?kept \<and> y \<in># mset ?all - mset ?kept \<and>
      netPct x = Fin 300 \<and> netPct y = Fin 100 \<and> \<not> num_lt (netPct x) (netPct y)"
    by blast
  from 1 2 3 4 5 f v n soundRounding_Fin ieeeRounding_Fin monotoneRounding_Fin unevenPairs_all
    unevenPairs_infinite_fee rankedPairs_cut
  show ?thesis by blast
qed

lemma fifteenAssets_candidates: "length (crossResults Fin fifteenAssets ''USDT'' (Fin 0)) = 210"
  by code_simp

lemma fifteenAssets_no_bridge: "indexPairs fifteenAssets (pairKey ''USDT'' ''IRT'') = None"
  by code_simp

text \<open>
  C3 as stated fails: on fifteen assets that each have both of their pairs the double
  loop of the cross-pair finder pushes 210 opportunities (a caller who asks
  \<open>findCrossPairs\<close> for 210 results gets them all), there is no triangle, and
  \<open>findAllOpportunities\<close> returns 200 opportunities.
\<close>

theorem all_opportunities_truncated_counterexample:
  "findTriangles Fin fifteenAssets ''USDT'' (Fin 0) = [] \<and>
   length (crossResults Fin fifteenAssets ''USDT'' (Fin 0)) = 210 \<and>
   length (findCrossPairs Fin fifteenAssets ''USDT'' (Fin 0) (Fin 210)) = 210 \<and>
   length (findAllOpportunities Fin fifteenAssets ''USDT'' (Fin 0)) = 200"
proof -
  have t: "findTriangles Fin fifteenAssets ''USDT'' (Fin 0) = []"
    by (simp add: findTriangles_def fifteenAssets_no_bridge)
  have c: "length (findCrossPairs Fin fifteenAssets ''USDT'' (Fin 0) (Fin (real m))) = min 210 m"
    for m
    by (simp only: findCrossPairs_def sliceTo_count length_take length_sortBy
        fifteenAssets_candidates)
  from c [of 200] have c200:
    "length (findCrossPairs Fin fifteenAssets ''USDT'' (Fin 0) (Fin 200)) = 200"
    by simp
  from c [of 210] have c210:
    "length (findCrossPairs Fin fifteenAssets ''USDT'' (Fin 0) (Fin 210)) = 210"
    by simp
  have "length (findAllOpportunities Fin fifteenAssets ''USDT'' (Fin 0)) = 200"
    by (simp add: findAllOpportunities_def Let_def length_sortBy t c200)
  with t c210 fifteenAssets_candidates show ?thesis by simp
qed

subsection \<open>The end-to-end example\<close>

lemma accurate_Fin: "accurate Fin"
  by (simp add: accurate_def)

lemma accurate_between:
  assumes "accurate rnd" and "lo \<le> x" and "x \<le> hi"
    and "1 / 10 ^ 6 \<le> lo" and "hi \<le> 10 ^ 6"
    and "lo' \<le> lo - lo / 2 ^ 53" and "hi + hi / 2 ^ 53 \<le> hi'"
  shows "\<exists>y. rnd x = Fin y \<and> lo' \<le> y \<and> y \<le> hi'"
proof -
  have "(0::real) < 1 / 10 ^ 6" by simp
  with assms(2,4) have pos: "0 < x" by linarith
  with assms(2,3,4,5) have "1 / 10 ^ 6 \<le> \<bar>x\<bar> \<and> \<bar>x\<bar> \<le> 10 ^ 6" by simp
  with assms(1) obtain y where y: "rnd x = Fin y" "\<bar>y - x\<bar> \<le> \<bar>x\<bar> / 2 ^ 53"
    unfolding accurate_def by blast
  from y(2) pos have 1: "x - x / 2 ^ 53 \<le> y" "y \<le> x + x / 2 ^ 53"
    unfolding abs_le_iff by simp_all
  have "x / 2 ^ 53 \<le> hi / 2 ^ 53"
    using assms(3) by (simp add: divide_right_mono)
  moreover have "lo - lo / 2 ^ 53 \<le> x - x / 2 ^ 53"
  proof -
    have "lo * (1 - 1 / 2 ^ 53) \<le> x * (1 - 1 / 2 ^ 53)"
      using assms(2) by (intro mult_right_mono) simp_all
    then show ?thesis by (simp add: algebra_simps)
  qed
  ultimately have "lo' \<le> y" "y \<le> hi'" using 1 assms(3,6,7) by linarith+
  with y(1) show ?thesis by blast
qed

lemma product_between:
  fixes h v :: real
  assumes "29 / 1000 - 7 / 10 ^ 15 \<le> h" and "h \<le> 29 / 1000 + 7 / 10 ^ 15"
    and "10000 - 2 / 10 ^ 12 \<le> v" and "v \<le> 10000 + 2 / 10 ^ 12"
  shows "290 - 1 / 10 ^ 10 \<le> h * v" and "h * v \<le> 290 + 1 / 10 ^ 10"
proof -
  have "(29 / 1000 - 7 / 10 ^ 15) * (10000 - 2 / 10 ^ 12) \<le> h * v"
    using assms by (intro mult_mono) simp_all
  moreover have "(290 - 1 / 10 ^ 10 :: real) \<le> (29 / 1000 - 7 / 10 ^ 15) * (10000 - 2 / 10 ^ 12)"
    by simp
  ultimately show "290 - 1 / 10 ^ 10 \<le> h * v" by linarith
  have "0 \<le> h" using assms(1) by simp
  then have "h * v \<le> (29 / 1000 + 7 / 10 ^ 15) * (10000 + 2 / 10 ^ 12)"
    using assms by (intro mult_mono) simp_all
  moreover have "(29 / 1000 + 7 / 10 ^ 15) * (10000 + 2 / 10 ^ 12) \<le> (290 + 1 / 10 ^ 10 :: real)"
    by simp
  ultimately show "h * v \<le> 290 + 1 / 10 ^ 10" by linarith
qed

lemma quotient_above:
  assumes "accurate rnd" and "11 \<le> q" and "q \<le> 10 ^ 6"
    and "105 / 100 - 1 / 10 ^ 15 \<le> b" and "b \<le> 105 / 100 + 1 / 10 ^ 15"
  shows "\<exists>l. rnd (q / b) = Fin l \<and> 10 < l"
proof -
  from assms(4,5) have b: "1 \<le> b" "b \<le> 106 / 100" by simp_all
  have lo: "11 / (106 / 100) \<le> q / b"
    using assms(2) b by (intro frac_le) simp_all
  have "q / b \<le> q / 1" using assms(2) b by (intro divide_left_mono) simp_all
  with assms(3) have hi: "q / b \<le> 10 ^ 6" by simp
  have "\<exists>l. rnd (q / b) = Fin l \<and> 1019 / 100 \<le> l \<and> l \<le> 10 ^ 7"
    using assms(1) lo hi by (rule accurate_between) simp_all
  then show ?thesis by force
qed

lemma examplePairs_bridge:
  "indexPairs (examplePairs rnd bq aq) (pairKey ''USDT'' ''IRT'') =
     Some \<lparr>symbol = ''USDTIRT'', asset = ''USDT'', quote = ''IRT'', bestBid = Fin 990,
       bestBidQty = bq, bestAsk = Fin 1000, bestAskQty = aq\<rparr>"
  by (simp add: indexPairs_def examplePairs_def pairKey_def)

lemma examplePairs_entries:
  "buildAssetEntries (examplePairs rnd bq aq) ''USDT'' =
     [\<lparr>assetE = ''X'',
       irt = \<lparr>symbol = ''XIRT'', asset = ''X'', quote = ''IRT'', bestBid = Fin 990,
         bestBidQty = Fin 10, bestAsk = Fin 1000, bestAskQty = Fin 10\<rparr>,
       baseE = \<lparr>symbol = ''XUSDT'', asset = ''X'', quote = ''USDT'', bestBid = rnd (105 / 100),
         bestBidQty = Fin 10, bestAsk = rnd (106 / 100), bestAskQty = Fin 10\<rparr>\<rparr>]"
  by (simp add: buildAssetEntries_def indexPairs_def examplePairs_def pairKey_def)

lemma nearI:
  assumes "c - d \<le> y" and "y \<le> c + d" and "d \<le> 1 / 10 ^ 9"
  shows "near (Fin y) c"
proof -
  from assms have "y - c \<le> 1 / 10 ^ 9" "- (y - c) \<le> 1 / 10 ^ 9" by linarith+
  then show ?thesis unfolding near_def number.case abs_le_iff by blast
qed

lemma example_forward:
  fixes rnd :: rounding and q :: real and aq :: number
  assumes a: "accurate rnd" and q: "11 \<le> q" "q \<le> 10 ^ 6"
  defines "c \<equiv> cwCandidate rnd ''USDT'' (num_mul rnd (Fin 3) (rnd (35 / 100)))
      \<lparr>symbol = ''USDTIRT'', asset = ''USDT'', quote = ''IRT'', bestBid = Fin 990,
        bestBidQty = Fin q, bestAsk = Fin 1000, bestAskQty = aq\<rparr>
      \<lparr>assetE = ''X'',
       irt = \<lparr>symbol = ''XIRT'', asset = ''X'', quote = ''IRT'', bestBid = Fin 990,
         bestBidQty = Fin 10, bestAsk = Fin 1000, bestAskQty = Fin 10\<rparr>,
       baseE = \<lparr>symbol = ''XUSDT'', asset = ''X'', quote = ''USDT'', bestBid = rnd (105 / 100),
         bestBidQty = Fin 10, bestAsk = rnd (106 / 100), bestAskQty = Fin 10\<rparr>\<rparr>"
  shows "assets c = [''X''] \<and> direction c = cw \<and>
     near (rate c) (10395 / 10000) \<and> near (grossPct c) (395 / 100) \<and>
     near (feePct c) (105 / 100) \<and> near (netPct c) (290 / 100) \<and>
     (\<exists>l. capacities rnd c = [Fin 10, Fin 10, Fin l] \<and> 10 < l) \<and>
     bottleneckLeg c = 0 \<and>
     near (maxVolumeIRT c) 10000 \<and> near (expectedProfitIRT c) 290"
proof -
  have "\<exists>y. rnd (105 / 100) = Fin y \<and> 105 / 100 - 1 / 10 ^ 15 \<le> y \<and> y \<le> 105 / 100 + 1 / 10 ^ 15"
    by (rule accurate_between [OF a, of "105 / 100" _ "105 / 100"]) simp_all
  then obtain b where b: "rnd (105 / 100) = Fin b"
      "105 / 100 - 1 / 10 ^ 15 \<le> b" "b \<le> 105 / 100 + 1 / 10 ^ 15"
    by blast
  have "\<exists>y. rnd (35 / 100) = Fin y \<and> 35 / 100 - 1 / 10 ^ 15 \<le> y \<and> y \<le> 35 / 100 + 1 / 10 ^ 15"
    by (rule accurate_between [OF a, of "35 / 100" _ "35 / 100"]) simp_all
  then obtain f where f: "rnd (35 / 100) = Fin f"
      "35 / 100 - 1 / 10 ^ 15 \<le> f" "f \<le> 35 / 100 + 1 / 10 ^ 15"
    by blast
  have "\<exists>y. rnd (b * 990) = Fin y \<and> 10395 / 10 - 2 / 10 ^ 12 \<le> y \<and> y \<le> 10395 / 10 + 2 / 10 ^ 12"
  proof (rule accurate_between [OF a, of "10395 / 10 - 1 / 10 ^ 12" _ "10395 / 10 + 1 / 10 ^ 12"])
    show "10395 / 10 - 1 / 10 ^ 12 \<le> b * 990" using b(2) by simp
    show "b * 990 \<le> 10395 / 10 + 1 / 10 ^ 12" using b(3) by simp
  qed simp_all
  then obtain m where m: "rnd (b * 990) = Fin m"
      "10395 / 10 - 2 / 10 ^ 12 \<le> m" "m \<le> 10395 / 10 + 2 / 10 ^ 12"
    by blast
  have "\<exists>y. rnd (m / 1000) = Fin y \<and> 10395 / 10000 - 3 / 10 ^ 15 \<le> y \<and>
      y \<le> 10395 / 10000 + 3 / 10 ^ 15"
  proof (rule accurate_between [OF a, of "10395 / 10000 - 2 / 10 ^ 15" _ "10395 / 10000 + 2 / 10 ^ 15"])
    show "10395 / 10000 - 2 / 10 ^ 15 \<le> m / 1000" using m(2) by simp
    show "m / 1000 \<le> 10395 / 10000 + 2 / 10 ^ 15" using m(3) by simp
  qed simp_all
  then obtain r where r: "rnd (m / 1000) = Fin r"
      "10395 / 10000 - 3 / 10 ^ 15 \<le> r" "r \<le> 10395 / 10000 + 3 / 10 ^ 15"
    by blast
  have "\<exists>y. rnd (r - 1) = Fin y \<and> 395 / 10000 - 4 / 10 ^ 15 \<le> y \<and> y \<le> 395 / 10000 + 4 / 10 ^ 15"
  proof (rule accurate_between [OF a, of "395 / 10000 - 3 / 10 ^ 15" _ "395 / 10000 + 3 / 10 ^ 15"])
    show "395 / 10000 - 3 / 10 ^ 15 \<le> r - 1" using r(2) by simp
    show "r - 1 \<le> 395 / 10000 + 3 / 10 ^ 15" using r(3) by simp
  qed simp_all
  then obtain s where s: "rnd (r - 1) = Fin s"
      "395 / 10000 - 4 / 10 ^ 15 \<le> s" "s \<le> 395 / 10000 + 4 / 10 ^ 15"
    by blast
  have "\<exists>y. rnd (s * 100) = Fin y \<and> 395 / 100 - 5 / 10 ^ 13 \<le> y \<and> y \<le> 395 / 100 + 5 / 10 ^ 13"
  proof (rule accurate_between [OF a, of "395 / 100 - 4 / 10 ^ 13" _ "395 / 100 + 4 / 10 ^ 13"])
    show "395 / 100 - 4 / 10 ^ 13 \<le> s * 100" using s(2) by simp
    show "s * 100 \<le> 395 / 100 + 4 / 10 ^ 13" using s(3) by simp
  qed simp_all
  then obtain g where g: "rnd (s * 100) = Fin g"
      "395 / 100 - 5 / 10 ^ 13 \<le> g" "g \<le> 395 / 100 + 5 / 10 ^ 13"
    by blast
  have "\<exists>y. rnd (3 * f) = Fin y \<and> 105 / 100 - 4 / 10 ^ 15 \<le> y \<and> y \<le> 105 / 100 + 4 / 10 ^ 15"
  proof (rule accurate_between [OF a, of "105 / 100 - 3 / 10 ^ 15" _ "105 / 100 + 3 / 10 ^ 15"])
    show "105 / 100 - 3 / 10 ^ 15 \<le> 3 * f" using f(2) by simp
    show "3 * f \<le> 105 / 100 + 3 / 10 ^ 15" using f(3) by simp
  qed simp_all
  then obtain t where t: "rnd (3 * f) = Fin t"
      "105 / 100 - 4 / 10 ^ 15 \<le> t" "t \<le> 105 / 100 + 4 / 10 ^ 15"
    by blast
  have "\<exists>y. rnd (g - t) = Fin y \<and> 290 / 100 - 6 / 10 ^ 13 \<le> y \<and> y \<le> 290 / 100 + 6 / 10 ^ 13"
  proof (rule accurate_between [OF a, of "290 / 100 - 51 / 10 ^ 14" _ "290 / 100 + 51 / 10 ^ 14"])
    show "290 / 100 - 51 / 10 ^ 14 \<le> g - t" using g(2) t(3) by simp
    show "g - t \<le> 290 / 100 + 51 / 10 ^ 14" using g(3) t(2) by simp
  qed simp_all
  then obtain n where n: "rnd (g - t) = Fin n"
      "290 / 100 - 6 / 10 ^ 13 \<le> n" "n \<le> 290 / 100 + 6 / 10 ^ 13"
    by blast
  have "\<exists>y. rnd (n / 100) = Fin y \<and> 29 / 1000 - 7 / 10 ^ 15 \<le> y \<and> y \<le> 29 / 1000 + 7 / 10 ^ 15"
  proof (rule accurate_between [OF a, of "29 / 1000 - 6 / 10 ^ 15" _ "29 / 1000 + 6 / 10 ^ 15"])
    show "29 / 1000 - 6 / 10 ^ 15 \<le> n / 100" using n(2) by simp
    show "n / 100 \<le> 29 / 1000 + 6 / 10 ^ 15" using n(3) by simp
  qed simp_all
  then obtain h where h: "rnd (n / 100) = Fin h"
      "29 / 1000 - 7 / 10 ^ 15 \<le> h" "h \<le> 29 / 1000 + 7 / 10 ^ 15"
    by blast
  have "\<exists>y. rnd (10 * 1000) = Fin y \<and> 10000 - 2 / 10 ^ 12 \<le> y \<and> y \<le> 10000 + 2 / 10 ^ 12"
    by (rule accurate_between [OF a, of "10000" _ "10000"]) simp_all
  then obtain v where v: "rnd (10 * 1000) = Fin v"
      "10000 - 2 / 10 ^ 12 \<le> v" "v \<le> 10000 + 2 / 10 ^ 12"
    by blast
  have "\<exists>y. rnd (h * v) = Fin y \<and> 290 - 2 / 10 ^ 10 \<le> y \<and> y \<le> 290 + 2 / 10 ^ 10"
  proof (rule accurate_between [OF a, of "290 - 1 / 10 ^ 10" _ "290 + 1 / 10 ^ 10"])
    show "290 - 1 / 10 ^ 10 \<le> h * v" using h(2,3) v(2,3) by (rule product_between)
    show "h * v \<le> 290 + 1 / 10 ^ 10" using h(2,3) v(2,3) by (rule product_between)
  qed simp_all
  then obtain p where p: "rnd (h * v) = Fin p"
      "290 - 2 / 10 ^ 10 \<le> p" "p \<le> 290 + 2 / 10 ^ 10"
    by blast
  from quotient_above [OF a q b(2,3)] obtain l where l: "rnd (q / b) = Fin l" "10 < l"
    by blast
  have bpos: "0 < b" "b \<noteq> 0" using b(2) by simp_all
  have T: "num_mul rnd (Fin 3) (rnd (35 / 100)) = Fin t"
    by (simp only: f(1) num_mul.simps t(1))
  have rate: "rate c = Fin r"
    unfolding c_def cwCandidate_def Let_def
    by (simp only: b(1) m(1) r(1) num_mul.simps num_div.simps MarketPair.simps
        AssetEntry.simps Opportunity.simps) simp
  have gross: "grossPct c = Fin g"
  proof -
    have "grossPct c = num_mul rnd (num_sub rnd (rate c) (Fin 1)) (Fin 100)"
      unfolding c_def by (rule cw_gross)
    also have "\<dots> = num_mul rnd (rnd (r - 1)) (Fin 100)" by (simp only: rate num_sub.simps)
    also have "\<dots> = rnd (s * 100)" by (simp only: s(1) num_mul.simps)
    finally show ?thesis by (simp only: g(1))
  qed
  have fee: "feePct c = Fin t"
  proof -
    have "feePct c = num_mul rnd (Fin 3) (rnd (35 / 100))"
      unfolding c_def by (rule cwCandidate_fee(2))
    then show ?thesis by (simp only: T)
  qed
  have net: "netPct c = Fin n"
  proof -
    have "netPct c = num_sub rnd (grossPct c) (num_mul rnd (Fin 3) (rnd (35 / 100)))"
      unfolding c_def by (rule cwCandidate_fee(3))
    also have "\<dots> = num_sub rnd (Fin g) (Fin t)" by (simp only: gross T)
    finally show ?thesis by (simp only: num_sub.simps n(1))
  qed
  have l3: "(if num_gt (Fin b) (Fin 0) then num_div rnd (Fin q) (Fin b) else Fin 0) = Fin l"
    using bpos l(1) by (simp add: num_gt_def)
  have caps: "capacities rnd c = [Fin 10, Fin 10, Fin l]"
    unfolding c_def cwCandidate_def Let_def capacities_def
    by (simp only: b(1) l3 MarketPair.simps AssetEntry.simps Opportunity.simps Leg.simps
        Direction.case list.case prod.case)
  have mn: "Math_min [Fin 10, Fin 10, Fin l] = Fin 10"
    using l(2) by (simp add: min2_def)
  have bn: "bottleneckLeg c = 0"
    unfolding c_def cwCandidate_def Let_def
    by (simp only: b(1) l3 mn MarketPair.simps AssetEntry.simps Opportunity.simps)
      (simp add: strict_eq_def)
  have vol: "maxVolumeIRT c = Fin v"
    unfolding c_def cwCandidate_def Let_def
    by (simp only: b(1) l3 mn MarketPair.simps AssetEntry.simps Opportunity.simps
        num_mul.simps v(1))
  have profit: "expectedProfitIRT c = Fin p"
  proof -
    have "expectedProfitIRT c = num_mul rnd (num_div rnd (netPct c) (Fin 100)) (maxVolumeIRT c)"
      unfolding c_def cwCandidate_def Let_def by (simp only: Opportunity.simps)
    also have "\<dots> = num_mul rnd (num_div rnd (Fin n) (Fin 100)) (Fin v)"
      by (simp only: net vol)
    also have "\<dots> = Fin p" by (simp add: h(1) p(1))
    finally show ?thesis .
  qed
  have "assets c = [''X'']" "direction c = cw"
    unfolding c_def cwCandidate_def Let_def by simp_all
  moreover have "near (rate c) (10395 / 10000)"
    unfolding rate using r(2,3) by (rule nearI [where d = "3 / 10 ^ 15"]) simp
  moreover have "near (grossPct c) (395 / 100)"
    unfolding gross using g(2,3) by (rule nearI [where d = "5 / 10 ^ 13"]) simp
  moreover have "near (feePct c) (105 / 100)"
    unfolding fee using t(2,3) by (rule nearI [where d = "4 / 10 ^ 15"]) simp
  moreover have "near (netPct c) (290 / 100)"
    unfolding net using n(2,3) by (rule nearI [where d = "6 / 10 ^ 13"]) simp
  moreover have "near (maxVolumeIRT c) 10000"
    unfolding vol using v(2,3) by (rule nearI [where d = "2 / 10 ^ 12"]) simp
  moreover have "near (expectedProfitIRT c) 290"
    unfolding profit using p(2,3) by (rule nearI [where d = "2 / 10 ^ 10"]) simp
  ultimately show ?thesis using caps l(2) bn by blast
qed

lemma near_Fin:
  assumes "near a c"
  shows "\<exists>y. a = Fin y \<and> c - 1 / 10 ^ 9 \<le> y"
proof (cases a)
  case (Fin y)
  with assms have "\<bar>y - c\<bar> \<le> 1 / 10 ^ 9" by (simp only: near_def number.case)
  then have "- (y - c) \<le> 1 / 10 ^ 9" unfolding abs_le_iff by blast
  then have "c - 1 / 10 ^ 9 \<le> y" by linarith
  with Fin show ?thesis by blast
qed (use assms in \<open>simp_all add: near_def\<close>)

text \<open>
  C9. On the snapshot of the example, with bridge \<open>USDT\<close> and the fee 0.35 per trade,
  for every accurate rounding and every bid quantity of the bridge pair from 11 to
  \<open>10\<^sup>6\<close>: the first opportunity that \<open>findTriangles\<close> returns is the clockwise
  triangle of \<open>X\<close>; its rate is 1.0395, its \<open>grossPct\<close> 3.95, its \<open>feePct\<close> 1.05 and its
  \<open>netPct\<close> 2.90, each to nine decimal places; the capacities of its legs are 10, 10
  and a number greater than 10, so that the executable volume is 10 units of the asset
  and the bottleneck is the first leg; its volume is 10000 and its expected profit 290,
  to nine decimal places.
\<close>

theorem forward_triangle_example:
  fixes rnd :: rounding and q :: real and aq :: number
  assumes "accurate rnd" and "11 \<le> q" and "q \<le> 10 ^ 6"
  shows "\<exists>x rest.
     findTriangles rnd (examplePairs rnd (Fin q) aq) ''USDT'' (rnd (35 / 100)) = x # rest \<and>
     type x = triangle \<and> assets x = [''X''] \<and> direction x = cw \<and>
     near (rate x) (10395 / 10000) \<and> near (grossPct x) (395 / 100) \<and>
     near (feePct x) (105 / 100) \<and> near (netPct x) (290 / 100) \<and>
     (\<exists>l. capacities rnd x = [Fin 10, Fin 10, Fin l] \<and> 10 < l) \<and>
     Math_min (capacities rnd x) = Fin 10 \<and> bottleneckLeg x = 0 \<and>
     near (maxVolumeIRT x) 10000 \<and> near (expectedProfitIRT x) 290"
proof -
  let ?T = "num_mul rnd (Fin 3) (rnd (35 / 100))"
  let ?bridge = "\<lparr>symbol = ''USDTIRT'', asset = ''USDT'', quote = ''IRT'', bestBid = Fin 990,
        bestBidQty = Fin q, bestAsk = Fin 1000, bestAskQty = aq\<rparr>"
  let ?e = "\<lparr>assetE = ''X'',
       irt = \<lparr>symbol = ''XIRT'', asset = ''X'', quote = ''IRT'', bestBid = Fin 990,
         bestBidQty = Fin 10, bestAsk = Fin 1000, bestAskQty = Fin 10\<rparr>,
       baseE = \<lparr>symbol = ''XUSDT'', asset = ''X'', quote = ''USDT'', bestBid = rnd (105 / 100),
         bestBidQty = Fin 10, bestAsk = rnd (106 / 100), bestAskQty = Fin 10\<rparr>\<rparr>"
  let ?c = "cwCandidate rnd ''USDT'' ?T ?bridge ?e"
  note ex = example_forward [OF assms, of aq]
  have all: "findTriangles rnd (examplePairs rnd (Fin q) aq) ''USDT'' (rnd (35 / 100)) =
      pushIf ?c @ pushIf (ccwCandidate rnd ''USDT'' ?T ?bridge ?e)"
    by (simp add: findTriangles_def examplePairs_bridge examplePairs_entries)
  from ex have "near (rate ?c) (10395 / 10000)" "near (maxVolumeIRT ?c) 10000" by blast+
  then obtain r v where "rate ?c = Fin r" "maxVolumeIRT ?c = Fin v" "10000 - 1 / 10 ^ 9 \<le> v"
    using near_Fin by blast
  then have "isFinite (rate ?c)" "num_gt (maxVolumeIRT ?c) (Fin 0)"
    by (simp_all add: num_gt_def)
  then have "pushIf ?c = [?c]" by (simp only: pushIf_def if_True simp_thms)
  with all have 1: "findTriangles rnd (examplePairs rnd (Fin q) aq) ''USDT'' (rnd (35 / 100)) =
      ?c # pushIf (ccwCandidate rnd ''USDT'' ?T ?bridge ?e)"
    by simp
  from ex obtain l where l: "capacities rnd ?c = [Fin 10, Fin 10, Fin l]" "10 < l" by blast
  then have 2: "Math_min (capacities rnd ?c) = Fin 10" by (simp add: min2_def)
  have 3: "type ?c = triangle" by (rule cwCandidate_fee(1))
  from 1 2 3 ex show ?thesis by blast
qed

lemma example_exact:
  "map (\<lambda>x. (rate x, grossPct x, feePct x, netPct x, maxVolumeIRT x, expectedProfitIRT x))
     (findTriangles Fin (examplePairs Fin (Fin 1000) (Fin 1000)) ''USDT'' (Fin (35 / 100))) =
   [(Fin (10395 / 10000), Fin (395 / 100), Fin (105 / 100), Fin (290 / 100), Fin 10000, Fin 290),
    (Fin (990 / 1060), Fin (- 700 / 106), Fin (105 / 100), Fin (- 700 / 106 - 105 / 100),
     Fin 10600, Fin ((- 700 / 106 - 105 / 100) * 106))]"
  by code_simp

theorem forward_triangle_example_witness:
  "accurate Fin \<and> (11::real) \<le> 1000 \<and> (1000::real) \<le> 10 ^ 6 \<and>
   (\<exists>x rest.
      findTriangles Fin (examplePairs Fin (Fin 1000) (Fin 1000)) ''USDT'' (Fin (35 / 100)) =
        x # rest \<and>
      assets x = [''X''] \<and> direction x = cw \<and>
      rate x = Fin (10395 / 10000) \<and> near (rate x) (10395 / 10000) \<and>
      grossPct x = Fin (395 / 100) \<and> near (grossPct x) (395 / 100) \<and>
      feePct x = Fin (105 / 100) \<and> near (feePct x) (105 / 100) \<and>
      netPct x = Fin (290 / 100) \<and> near (netPct x) (290 / 100) \<and>
      Math_min (capacities Fin x) = Fin 10 \<and> bottleneckLeg x = 0 \<and>
      maxVolumeIRT x = Fin 10000 \<and> near (maxVolumeIRT x) 10000 \<and>
      expectedProfitIRT x = Fin 290 \<and> near (expectedProfitIRT x) 290)"
proof -
  have h: "(11::real) \<le> 1000" "(1000::real) \<le> 10 ^ 6" by simp_all
  from forward_triangle_example [OF accurate_Fin h, of "Fin 1000"]
  obtain x rest where x:
    "findTriangles Fin (examplePairs Fin (Fin 1000) (Fin 1000)) ''USDT'' (Fin (35 / 100)) = x # rest"
    "assets x = [''X'']" "direction x = cw"
    "near (rate x) (10395 / 10000)" "near (grossPct x) (395 / 100)"
    "near (feePct x) (105 / 100)" "near (netPct x) (290 / 100)"
    "Math_min (capacities Fin x) = Fin 10" "bottleneckLeg x = 0"
    "near (maxVolumeIRT x) 10000" "near (expectedProfitIRT x) 290"
    by blast
  from example_exact [unfolded x(1)]
  have e: "rate x = Fin (10395 / 10000)" "grossPct x = Fin (395 / 100)"
    "feePct x = Fin (105 / 100)" "netPct x = Fin (290 / 100)"
    "maxVolumeIRT x = Fin 10000" "expectedProfitIRT x = Fin 290"
    by simp_all
  from x e accurate_Fin h show ?thesis by blast
qed

end
